theory Spec2Isabelle
  imports Main "HOL-Library.Sublist"
begin

section \<open>JavaScript values and the external capabilities\<close>

text \<open>
  The scraper exists in two copies: \<^verbatim>\<open>src/scrape-botech.js\<close> (definitions without a
  suffix below) and \<^verbatim>\<open>src/unnamed/part_001\<close> (definitions with the suffix \<open>_p1\<close>).
  JavaScript strings are modelled as \<open>string\<close>; \<open>null\<close>/\<open>undefined\<close> as \<open>None\<close>; a thrown
  exception as the left summand of a sum type.

  Library code that is not part of the repository is a parameter of the model, collected
  in the record \<open>env\<close>: the WHATWG URL constructor of Node (\<open>new URL(input, base).href\<close>,
  which throws a TypeError on input it cannot parse), the package \<open>sanitize-filename\<close>,
  \<open>path.join\<close> and \<open>path.basename\<close>, and the selector queries of \<open>cheerio\<close>:
  \<open>select E html sel\<close> is the list of the elements of \<open>cheerio.load(html)\<close> that the
  selector \<open>sel\<close> matches, in document order, each element given by its attributes.
\<close>

datatype js_error = TypeError | TransportError string

type_synonym element = "string \<Rightarrow> string option"

record env =
  url_href :: "string \<Rightarrow> string \<Rightarrow> js_error + string"
  sanitize :: "string \<Rightarrow> string"
  path_join :: "string \<Rightarrow> string \<Rightarrow> string"
  path_basename :: "string \<Rightarrow> string"
  select :: "string \<Rightarrow> string \<Rightarrow> element list"

definition BASE_URL :: string where
  "BASE_URL = ''https://www.botech.ma/''"

definition OUTPUT_DIR :: string where
  "OUTPUT_DIR = ''botech_images''"

definition FETCH_CONCURRENCY :: nat where
  "FETCH_CONCURRENCY = 4"

definition DOWNLOAD_CONCURRENCY :: nat where
  "DOWNLOAD_CONCURRENCY = 4"

definition MAX_RETRIES :: nat where
  "MAX_RETRIES = 3"

definition RETRY_DELAY_MS :: nat where
  "RETRY_DELAY_MS = 1200"

subsection \<open>String primitives\<close>

text \<open>ASCII lower-casing: what the \<open>i\<close> flag of a regular expression without the \<open>u\<close> flag
  amounts to for a pattern of ASCII letters, and \<open>toLowerCase\<close> on an ASCII match.\<close>

definition lower_char :: "char \<Rightarrow> char" where
  "lower_char c =
     (case map_of (zip ''ABCDEFGHIJKLMNOPQRSTUVWXYZ'' ''abcdefghijklmnopqrstuvwxyz'') c of
        None \<Rightarrow> c
      | Some l \<Rightarrow> l)"

definition toLowerCase :: "string \<Rightarrow> string" where
  "toLowerCase s = map lower_char s"

text \<open>\<open>s.startsWith(p)\<close>.\<close>

definition startsWith :: "string \<Rightarrow> string \<Rightarrow> bool" where
  "startsWith s p = prefix p s"

text \<open>\<open>/^https?:\/\//i.test(url)\<close>.\<close>

definition has_scheme_ci :: "string \<Rightarrow> bool" where
  "has_scheme_ci url =
     (prefix ''http://'' (toLowerCase url) \<or> prefix ''https://'' (toLowerCase url))"

text \<open>\<open>url.replace(/^\.?\//, "")\<close>: one leading \<open>./\<close> or one leading \<open>/\<close> is removed.\<close>

fun strip_dot_slash :: "string \<Rightarrow> string" where
  "strip_dot_slash (CHR ''.'' # CHR ''/'' # r) = r"
| "strip_dot_slash (CHR ''/'' # r) = r"
| "strip_dot_slash s = s"

text \<open>\<open>u.split("?")[0]\<close>.\<close>

definition strip_query :: "string \<Rightarrow> string" where
  "strip_query u = takeWhile (\<lambda>c. c \<noteq> CHR ''?'') u"

subsection \<open>URL normalizer\<close>

text \<open>The value of \<open>new URL(input, BASE_URL).href\<close>, or the TypeError of the constructor.\<close>

definition resolve :: "env \<Rightarrow> string \<Rightarrow> js_error + string option" where
  "resolve E input =
     (case url_href E input BASE_URL of
        Inl e \<Rightarrow> Inl e
      | Inr h \<Rightarrow> Inr (Some h))"

text \<open>\<^verbatim>\<open>src/scrape-botech.js\<close>, lines 65-69. \<open>!url\<close> holds for \<open>null\<close>, \<open>undefined\<close> and
  the empty string. Nothing catches the exception of the constructor.\<close>

definition toAbs :: "env \<Rightarrow> string option \<Rightarrow> js_error + string option" where
  "toAbs E url =
     (case url of
        None \<Rightarrow> Inr None
      | Some u \<Rightarrow>
          if u = [] then Inr None
          else if has_scheme_ci u then Inr (Some u)
          else resolve E (strip_dot_slash u))"

text \<open>\<^verbatim>\<open>src/unnamed/part_001\<close>, lines 70-75.\<close>

definition toAbs_p1 :: "env \<Rightarrow> string option \<Rightarrow> js_error + string option" where
  "toAbs_p1 E url =
     (case url of
        None \<Rightarrow> Inr None
      | Some u \<Rightarrow>
          if u = [] then Inr None
          else if startsWith u ''http://'' \<or> startsWith u ''https://'' then Inr (Some u)
          else if startsWith u ''/'' then resolve E u
          else Inr (Some (BASE_URL @ strip_dot_slash u)))"

text \<open>\<open>isImageUrl\<close> and \<open>extFromUrl\<close>: the regular expression
  \<open>/\.(jpe?g|png|webp)$/i\<close> on the part of the URL before the first \<open>?\<close>.\<close>

definition image_exts :: "string list" where
  "image_exts = [''.jpg'', ''.jpeg'', ''.png'', ''.webp'']"

definition isImageUrl :: "string \<Rightarrow> bool" where
  "isImageUrl u = (\<exists>e \<in> set image_exts. suffix e (toLowerCase (strip_query u)))"

definition extFromUrl :: "string \<Rightarrow> string" where
  "extFromUrl u =
     (case filter (\<lambda>e. suffix e (toLowerCase (strip_query u))) image_exts of
        [] \<Rightarrow> ''.jpg''
      | e # _ \<Rightarrow> e)"

subsection \<open>De-duplication\<close>

text \<open>\<^verbatim>\<open>src/unnamed/part_001\<close>, lines 122-132: the loop keeps the set \<open>s\<close> of the values seen
  and the output \<open>out\<close>, to which a value is pushed at its first occurrence.\<close>

fun uniq_loop :: "'a list \<Rightarrow> 'a set \<Rightarrow> 'a list \<Rightarrow> 'a list" where
  "uniq_loop [] s out = out"
| "uniq_loop (x # xs) s out =
     (if x \<notin> s then uniq_loop xs (insert x s) (out @ [x]) else uniq_loop xs s out)"

definition uniq_p1 :: "'a list \<Rightarrow> 'a list" where
  "uniq_p1 arr = uniq_loop arr {} []"

text \<open>\<^verbatim>\<open>src/scrape-botech.js\<close>, line 82: \<open>[...new Set(arr)]\<close>. A JavaScript \<open>Set\<close> iterates
  in insertion order, and adding a value it already holds changes nothing; the set is
  modelled by the list of its values in insertion order.\<close>

definition set_add :: "'a list \<Rightarrow> 'a \<Rightarrow> 'a list" where
  "set_add s x = (if x \<in> set s then s else s @ [x])"

definition new_Set :: "'a list \<Rightarrow> 'a list" where
  "new_Set arr = foldl set_add [] arr"

definition uniq :: "'a list \<Rightarrow> 'a list" where
  "uniq arr = new_Set arr"

subsection \<open>Errors as values\<close>

text \<open>Sequencing of computations that may throw: the first exception ends the computation.\<close>

definition bindE :: "'e + 'a \<Rightarrow> ('a \<Rightarrow> 'e + 'b) \<Rightarrow> 'e + 'b" where
  "bindE m f = (case m of Inl e \<Rightarrow> Inl e | Inr x \<Rightarrow> f x)"

fun mapE :: "('a \<Rightarrow> 'e + 'b) \<Rightarrow> 'a list \<Rightarrow> 'e + 'b list" where
  "mapE f [] = Inr []"
| "mapE f (x # xs) = bindE (f x) (\<lambda>y. bindE (mapE f xs) (\<lambda>ys. Inr (y # ys)))"

subsection \<open>Retrying fetcher\<close>

text \<open>
  The HTTP transport is an external capability. Its behaviour is a parameter \<open>get\<close>:
  \<open>get url opts k\<close> is what the \<open>k\<close>-th attempt of one call of the fetcher on \<open>url\<close> gets from
  \<open>client.get(url, opts)\<close>: a response, or the exception it throws (a status outside
  200..399, a timeout, a connection error). The fetcher returns its result together with
  the trace of what it did: every request and every sleep, in order.
\<close>

datatype 'u event = Get 'u nat | Sleep nat

text \<open>\<open>fetchWithRetry(url, opts = {}, attempt = 1)\<close>, lines 88-96 of
  \<^verbatim>\<open>src/scrape-botech.js\<close> and 87-96 of \<^verbatim>\<open>src/unnamed/part_001\<close> (the two bodies are the
  same; \<open>part_001\<close> only names the response before returning it).\<close>

function fetchWithRetry ::
  "('u \<Rightarrow> 'o \<Rightarrow> nat \<Rightarrow> js_error + 'r) \<Rightarrow> 'u \<Rightarrow> 'o \<Rightarrow> nat \<Rightarrow> (js_error + 'r) \<times> 'u event list"
where
  "fetchWithRetry get url opts attempt =
     (case get url opts attempt of
        Inr res \<Rightarrow> (Inr res, [Get url attempt])
      | Inl e \<Rightarrow>
          if attempt \<ge> MAX_RETRIES then (Inl e, [Get url attempt])
          else (case fetchWithRetry get url opts (attempt + 1) of
                  (r, evs) \<Rightarrow> (r, Get url attempt # Sleep (RETRY_DELAY_MS * attempt) # evs)))"
  by pat_completeness auto
termination
  by (relation "measure (\<lambda>(get, url, opts, attempt). MAX_RETRIES - attempt)") auto

declare fetchWithRetry.simps [simp del]

text \<open>The number of requests and the sleeps of a trace.\<close>

fun is_Get :: "'u event \<Rightarrow> bool" where
  "is_Get (Get _ _) = True"
| "is_Get (Sleep _) = False"

definition attempts :: "'u event list \<Rightarrow> nat" where
  "attempts evs = length (filter is_Get evs)"

fun sleeps :: "'u event list \<Rightarrow> nat list" where
  "sleeps [] = []"
| "sleeps (Sleep ms # evs) = ms # sleeps evs"
| "sleeps (Get _ _ # evs) = sleeps evs"

subsection \<open>File names\<close>

text \<open>\<open>\s\<close> on code units below 256: tab, line feed, vertical tab, form feed, carriage
  return, space and the no-break space.\<close>

definition is_space :: "char \<Rightarrow> bool" where
  "is_space c = ((of_char c :: nat) \<in> {9, 10, 11, 12, 13, 32, 160})"

text \<open>\<open>s.replace(/\s+/g, "_")\<close>: every maximal run of white space becomes one underscore.\<close>

function collapse_ws :: "string \<Rightarrow> string" where
  "collapse_ws [] = []"
| "collapse_ws (c # cs) =
     (if is_space c then CHR ''_'' # collapse_ws (dropWhile is_space cs)
      else c # collapse_ws cs)"
  by pat_completeness auto
termination
  by (relation "measure length") (auto simp: length_dropWhile_le less_Suc_eq_le)

text \<open>\<open>safeFileName\<close>: \<open>sanitize(name).replace(/\s+/g, "_").slice(0, 150)\<close>.\<close>

definition safeFileName :: "env \<Rightarrow> string \<Rightarrow> string" where
  "safeFileName E name = take 150 (collapse_ws (sanitize E name))"

text \<open>\<open>String(n)\<close> for a natural number, and \<open>s.padStart(3, "0")\<close>.\<close>

definition digit_char :: "nat \<Rightarrow> char" where
  "digit_char d = ''0123456789'' ! d"

function String_of_nat :: "nat \<Rightarrow> string" where
  "String_of_nat n =
     (if n < 10 then [digit_char n] else String_of_nat (n div 10) @ [digit_char (n mod 10)])"
  by pat_completeness auto
termination
  by (relation "measure id") auto

declare String_of_nat.simps [simp del]

definition padStart3 :: "string \<Rightarrow> string" where
  "padStart3 s = replicate (3 - length s) (CHR ''0'') @ s"

text \<open>
  The file name of one image (lines 210-214 of \<^verbatim>\<open>src/scrape-botech.js\<close>, 244-250 of
  \<^verbatim>\<open>src/unnamed/part_001\<close>), with the counter \<open>index\<close> before and after: the counter is read
  and incremented only when the synthetic name is taken. \<open>part_001\<close> tests
  \<open>urlName && urlName.includes(".")\<close>, which has the same truth value, since the empty
  string includes no dot.
\<close>

definition fileName_of :: "env \<Rightarrow> string \<Rightarrow> string \<Rightarrow> nat \<Rightarrow> string \<times> nat" where
  "fileName_of E categoryName imgUrl index =
     (let ext = extFromUrl imgUrl;
          urlName = safeFileName E (path_basename E (strip_query imgUrl))
      in if CHR ''.'' \<in> set urlName then (urlName, index)
         else (safeFileName E categoryName @ ''_'' @ padStart3 (String_of_nat index) @ ext,
               index + 1))"

text \<open>
  The destination of every image of the final set. \<open>p-limit\<close> starts the queued tasks in
  the order in which they were queued, which is the order of \<open>allImages\<close>, and a task runs
  without interruption up to its first \<open>await\<close> (the call of \<open>fs.pathExists\<close>); so the
  names are computed, and the counter incremented, in the order of \<open>allImages\<close>.
\<close>

fun name_targets :: "env \<Rightarrow> string \<Rightarrow> string \<Rightarrow> nat \<Rightarrow> string list \<Rightarrow> (string \<times> string) list" where
  "name_targets E categoryName folder index [] = []"
| "name_targets E categoryName folder index (imgUrl # rest) =
     (case fileName_of E categoryName imgUrl index of
        (fileName, index') \<Rightarrow>
          (imgUrl, path_join E folder fileName) # name_targets E categoryName folder index' rest)"







subsection \<open>Page extractor\<close>

text \<open>\<open>a || b\<close> on attribute values: \<open>a\<close> unless it is \<open>undefined\<close> or the empty string.\<close>

definition js_or :: "string option \<Rightarrow> string option \<Rightarrow> string option" where
  "js_or a b = (case a of None \<Rightarrow> b | Some x \<Rightarrow> if x = [] then b else a)"

text \<open>\<open>/pat/i.test(s)\<close> for a pattern \<open>pat\<close> of lower-case literal characters.\<close>

definition test_ci :: "string \<Rightarrow> string \<Rightarrow> bool" where
  "test_ci pat s = sublist pat (toLowerCase s)"

text \<open>The values that are not \<open>null\<close>.\<close>

definition non_null :: "'a option list \<Rightarrow> 'a list" where
  "non_null xs = concat (map (\<lambda>x. case x of None \<Rightarrow> [] | Some y \<Rightarrow> [y]) xs)"

text \<open>\<open>extractCategoryImages\<close>, lines 121-128 of \<^verbatim>\<open>src/scrape-botech.js\<close>. The \<open>map\<close> of
  cheerio drops the elements for which the function returns \<open>null\<close>.\<close>

definition extractCategoryImages :: "env \<Rightarrow> string \<Rightarrow> js_error + string list" where
  "extractCategoryImages E html =
     bindE (mapE (\<lambda>el. toAbs E (el ''src'')) (select E html ''.single-product-item .img-holder img''))
       (\<lambda>abss. Inr (uniq (filter isImageUrl (non_null abss))))"

text \<open>\<open>extractProductLinks\<close>, lines 130-138: the \<open>href\<close> attributes that are present and
  match \<open>/details\/|prod\//i\<close>, normalised.\<close>

definition is_product_href :: "string \<Rightarrow> bool" where
  "is_product_href href = (test_ci ''details/'' href \<or> test_ci ''prod/'' href)"

definition extractProductLinks :: "env \<Rightarrow> string \<Rightarrow> js_error + string option list" where
  "extractProductLinks E html =
     bindE (mapE (\<lambda>href. toAbs E (Some href))
              (filter is_product_href
                 (non_null (map (\<lambda>el. el ''href'')
                    (select E html
                       ''.single-product-item .img-holder a, .single-product-item .product-title a'')))))
       (\<lambda>links. Inr (uniq links))"

text \<open>\<open>extractProductImages\<close>, lines 140-157: two passes over the document add to one
  \<open>Set\<close>, whose values are returned in insertion order.\<close>

definition holder_candidate :: "env \<Rightarrow> element \<Rightarrow> js_error + string option" where
  "holder_candidate E el =
     bindE (toAbs E (js_or (js_or (el ''src'') (el ''data-src'')) (el ''data-imagezoom'')))
       (\<lambda>abs. Inr (case abs of
                    None \<Rightarrow> None
                  | Some a \<Rightarrow> if isImageUrl a then Some a else None))"

definition img_candidate :: "env \<Rightarrow> element \<Rightarrow> js_error + string option" where
  "img_candidate E el =
     bindE (toAbs E (el ''src''))
       (\<lambda>abs. Inr (case abs of
                    None \<Rightarrow> None
                  | Some a \<Rightarrow>
                      if isImageUrl a \<and> test_ci ''/images/produits/'' a then Some a else None))"

definition extractProductImages :: "env \<Rightarrow> string \<Rightarrow> js_error + string list" where
  "extractProductImages E html =
     bindE (mapE (holder_candidate E)
              (select E html ''.img-holder img, .thumb-image img, .thumb-image''))
       (\<lambda>first. bindE (mapE (img_candidate E) (select E html ''img''))
          (\<lambda>second. Inr (foldl set_add [] (non_null first @ non_null second))))"

text \<open>The same three functions in \<^verbatim>\<open>src/unnamed/part_001\<close>, lines 136-189, written with
  \<open>toAbs\<close> and \<open>uniq\<close> of that file; each pushes to an array and returns \<open>uniq\<close> of it.\<close>

definition getCategoryPageImageUrls_p1 :: "env \<Rightarrow> string \<Rightarrow> js_error + string list" where
  "getCategoryPageImageUrls_p1 E html =
     bindE (mapE (\<lambda>el. toAbs_p1 E (el ''src'')) (select E html ''.single-product-item .img-holder img''))
       (\<lambda>abss. Inr (uniq_p1 (filter isImageUrl (non_null abss))))"

definition getProductLinksFromCategory_p1 :: "env \<Rightarrow> string \<Rightarrow> js_error + string option list" where
  "getProductLinksFromCategory_p1 E html =
     bindE (mapE (\<lambda>href. toAbs_p1 E (Some href))
              (filter (\<lambda>href. href \<noteq> [] \<and> is_product_href href)
                 (non_null (map (\<lambda>el. el ''href'')
                    (select E html
                       ''.single-product-item .img-holder a, .single-product-item .product-title a'')))))
       (\<lambda>links. Inr (uniq_p1 links))"

definition holder_candidate_p1 :: "env \<Rightarrow> element \<Rightarrow> js_error + string option" where
  "holder_candidate_p1 E el =
     bindE (toAbs_p1 E (js_or (js_or (el ''src'') (el ''data-src'')) (el ''data-imagezoom'')))
       (\<lambda>abs. Inr (case abs of
                    None \<Rightarrow> None
                  | Some a \<Rightarrow> if isImageUrl a then Some a else None))"

definition img_candidate_p1 :: "env \<Rightarrow> element \<Rightarrow> js_error + string option" where
  "img_candidate_p1 E el =
     bindE (toAbs_p1 E (el ''src''))
       (\<lambda>abs. Inr (case abs of
                    None \<Rightarrow> None
                  | Some a \<Rightarrow>
                      if isImageUrl a \<and> test_ci ''/images/produits/'' a then Some a else None))"

definition getProductImages_p1 :: "env \<Rightarrow> string \<Rightarrow> js_error + string list" where
  "getProductImages_p1 E html =
     bindE (mapE (holder_candidate_p1 E)
              (select E html ''.img-holder img, .thumb-image img, .thumb-image''))
       (\<lambda>first. bindE (mapE (img_candidate_p1 E) (select E html ''img''))
          (\<lambda>second. Inr (uniq_p1 (non_null first @ non_null second))))"

subsection \<open>The world outside: transport and file system\<close>

text \<open>
  What the network and the file system answer is a parameter of the model, the record
  \<open>world\<close>: \<open>page_get W url k\<close> is the outcome of the \<open>k\<close>-th attempt of
  \<open>client.get(url)\<close> within one call of the fetcher (the body \<open>res.data\<close> of the response,
  or the exception), \<open>asset_get W url k\<close> the same for the \<open>axios.get\<close> of an image,
  \<open>write_file W dest k\<close> the exception of \<open>fs.writeFile(dest, ...)\<close> in the \<open>k\<close>-th attempt,
  if it throws, \<open>ensure_dir W dir\<close> the exception of \<open>fs.ensureDir(dir)\<close> in
  \<open>scrapeCategory\<close> and \<open>main\<close>, if it throws, and \<open>ensure_dest_dir W dest k\<close> the exception
  of \<open>fs.ensureDir(path.dirname(dest))\<close> at the start of the \<open>k\<close>-th attempt of
  \<open>downloadFile\<close>, if it throws.
  The file system itself is a map from the paths that exist to their contents.
\<close>

record response =
  data :: string

record world =
  page_get :: "string option \<Rightarrow> nat \<Rightarrow> js_error + response"
  asset_get :: "string \<Rightarrow> nat \<Rightarrow> js_error + response"
  write_file :: "string \<Rightarrow> nat \<Rightarrow> js_error option"
  ensure_dir :: "string \<Rightarrow> js_error option"
  ensure_dest_dir :: "string \<Rightarrow> nat \<Rightarrow> js_error option"

type_synonym files = "string \<rightharpoonup> string"

text \<open>What the download of one image does, in order: requests, file writes, sleeps and
  the report of the final failure.\<close>

datatype dl_event = Fetch string nat | Write string | Backoff nat | Failed string string

text \<open>
  \<open>downloadFile(url, dest, attempt = 1)\<close>, lines 98-115. Every attempt starts with
  \<open>fs.ensureDir(path.dirname(dest))\<close>, which is outside the \<open>try\<close>: its exception ends the
  call and is thrown to the caller. The request and the write are inside the \<open>try\<close>: an
  exception of either leads to the \<open>catch\<close>, which gives up at the last attempt
  (returning normally) and retries after a sleep otherwise. The result is the exception
  thrown, if any, with the file system and the events of the call up to its end.
\<close>

function downloadFile ::
  "world \<Rightarrow> string \<Rightarrow> string \<Rightarrow> nat \<Rightarrow> files \<Rightarrow> js_error option \<times> files \<times> dl_event list" where
  "downloadFile W url dest attempt fs =
     (case ensure_dest_dir W dest attempt of
        Some e \<Rightarrow> (Some e, fs, [])
      | None \<Rightarrow>
          (case (case asset_get W url attempt of
                   Inl e \<Rightarrow> Inl e
                 | Inr res \<Rightarrow> (case write_file W dest attempt of
                                 Some e \<Rightarrow> Inl e
                               | None \<Rightarrow> Inr res)) of
             Inr res \<Rightarrow> (None, fs(dest \<mapsto> data res), [Fetch url attempt, Write dest])
           | Inl e \<Rightarrow>
               if attempt \<ge> MAX_RETRIES then (None, fs, [Fetch url attempt, Failed url dest])
               else (case downloadFile W url dest (attempt + 1) fs of
                       (thrown, fs', evs) \<Rightarrow>
                         (thrown, fs',
                          Fetch url attempt # Backoff (RETRY_DELAY_MS * attempt) # evs))))"
  by pat_completeness auto
termination
  by (relation "measure (\<lambda>(W, url, dest, attempt, fs). MAX_RETRIES - attempt)") auto

declare downloadFile.simps [simp del]

fun is_Fetch :: "dl_event \<Rightarrow> bool" where
  "is_Fetch (Fetch _ _) = True"
| "is_Fetch _ = False"

text \<open>The fetch-call counter of a log.\<close>

definition fetch_count :: "dl_event list \<Rightarrow> nat" where
  "fetch_count evs = length (filter is_Fetch evs)"

subsection \<open>Concurrency-bounded pipeline\<close>

text \<open>
  \<open>Promise.all(items.map((x) => limit(() => worker(x))))\<close> with \<open>limit = pLimit(n)\<close>.
  \<open>pLimit\<close> throws a TypeError unless \<open>n\<close> is at least 1. The tasks wait in a queue in the
  order of \<open>items\<close>; a task starts when fewer than \<open>n\<close> are running; when task \<open>i\<close> completes,
  \<open>Promise.all\<close> stores its value at index \<open>i\<close> of the result array, and it resolves to this
  array once every task has completed.

  The order in which tasks start and complete is decided by the event loop and the
  network, so it is a parameter: a list of scheduling events. An event that is not
  enabled in the current state (a start with the pool full or the queue empty, the
  completion of a task that is not running) is skipped; when the list is exhausted, the
  tasks still running complete and the tasks still queued run one after the other. So
  every list stands for one complete run, and every run of the pool is given by a list.
\<close>

definition pLimit :: "nat \<Rightarrow> js_error + nat" where
  "pLimit n = (if 1 \<le> n then Inr n else Inl TypeError)"

datatype sched_event = Start | Complete nat

record 'r pool =
  queue :: "nat list"
  active :: "nat list"
  results :: "'r option list"

definition pool_init :: "nat \<Rightarrow> 'r pool" where
  "pool_init n = \<lparr>queue = [0..<n], active = [], results = replicate n None\<rparr>"

definition pool_complete :: "('a \<Rightarrow> 'r) \<Rightarrow> 'a list \<Rightarrow> nat \<Rightarrow> 'r pool \<Rightarrow> 'r pool" where
  "pool_complete worker items i P =
     P\<lparr>active := removeAll i (active P),
       results := (results P)[i := Some (worker (items ! i))]\<rparr>"

definition pool_step :: "nat \<Rightarrow> ('a \<Rightarrow> 'r) \<Rightarrow> 'a list \<Rightarrow> 'r pool \<Rightarrow> sched_event \<Rightarrow> 'r pool" where
  "pool_step limit worker items P ev =
     (case ev of
        Start \<Rightarrow>
          (case queue P of
             [] \<Rightarrow> P
           | i # q \<Rightarrow> if length (active P) < limit then P\<lparr>queue := q, active := active P @ [i]\<rparr>
                      else P)
      | Complete i \<Rightarrow> if i \<in> set (active P) then pool_complete worker items i P else P)"

definition pool_drain :: "('a \<Rightarrow> 'r) \<Rightarrow> 'a list \<Rightarrow> 'r pool \<Rightarrow> 'r pool" where
  "pool_drain worker items P =
     foldl (\<lambda>Q i. pool_complete worker items i Q) (P\<lparr>queue := [], active := active P @ queue P\<rparr>)
       (active P @ queue P)"

definition pool_run :: "nat \<Rightarrow> ('a \<Rightarrow> 'r) \<Rightarrow> 'a list \<Rightarrow> sched_event list \<Rightarrow> 'r pool" where
  "pool_run limit worker items sched =
     pool_drain worker items (foldl (pool_step limit worker items) (pool_init (length items)) sched)"

text \<open>The array \<open>Promise.all\<close> resolves to: the stored values, in index order.\<close>

definition runBounded ::
  "nat \<Rightarrow> ('a \<Rightarrow> 'r) \<Rightarrow> 'a list \<Rightarrow> sched_event list \<Rightarrow> js_error + 'r list" where
  "runBounded n worker items sched =
     bindE (pLimit n)
       (\<lambda>limit. Inr (non_null (results (pool_run limit worker items sched))))"

subsection \<open>Download phase\<close>

text \<open>
  The task of one image (lines 209-221 of \<^verbatim>\<open>src/scrape-botech.js\<close>, 243-255 of
  \<^verbatim>\<open>src/unnamed/part_001\<close>) has two points at which it waits: \<open>fs.pathExists(dest)\<close> and
  \<open>downloadFile(imgUrl, dest)\<close>. A started task is first \<open>checking\<close>; the check looks at
  the file system as it is at that moment and either ends the task (the file exists) or
  makes it \<open>loading\<close>; the load runs \<open>downloadFile\<close>, whose effect on the file system is the
  single write, and ends the task. The tasks are scheduled as in the pipeline above.

  When \<open>downloadFile\<close> throws, the promise of the task is rejected, and \<open>Promise.all\<close>
  rejects with the first such exception: \<open>dfailed\<close>. Nothing cancels the other tasks of
  the pool, which go on while the exception travels to the driver; the model lets them
  run to their end before the phase returns, so that what they write is on the disk that
  the phase leaves behind.
\<close>

datatype dl_sched = DStart | DCheck nat | DLoad nat

record dl_state =
  dqueue :: "nat list"
  dchecking :: "nat list"
  dloading :: "nat list"
  fs :: files
  dlog :: "dl_event list"
  dfailed :: "js_error option"

definition dl_init :: "nat \<Rightarrow> files \<Rightarrow> dl_state" where
  "dl_init n fs0 =
     \<lparr>dqueue = [0..<n], dchecking = [], dloading = [], fs = fs0, dlog = [], dfailed = None\<rparr>"

definition pathExists :: "files \<Rightarrow> string \<Rightarrow> bool" where
  "pathExists f dest = (f dest \<noteq> None)"

definition dl_check :: "(string \<times> string) list \<Rightarrow> nat \<Rightarrow> dl_state \<Rightarrow> dl_state" where
  "dl_check targets i st =
     (if pathExists (fs st) (snd (targets ! i))
      then st\<lparr>dchecking := removeAll i (dchecking st)\<rparr>
      else st\<lparr>dchecking := removeAll i (dchecking st), dloading := dloading st @ [i]\<rparr>)"

definition dl_load :: "world \<Rightarrow> (string \<times> string) list \<Rightarrow> nat \<Rightarrow> dl_state \<Rightarrow> dl_state" where
  "dl_load W targets i st =
     (case downloadFile W (fst (targets ! i)) (snd (targets ! i)) 1 (fs st) of
        (thrown, fs', evs) \<Rightarrow>
          st\<lparr>dloading := removeAll i (dloading st), fs := fs', dlog := dlog st @ evs,
             dfailed := (case dfailed st of None \<Rightarrow> thrown | Some e \<Rightarrow> Some e)\<rparr>)"

definition dl_step :: "nat \<Rightarrow> world \<Rightarrow> (string \<times> string) list \<Rightarrow> dl_state \<Rightarrow> dl_sched \<Rightarrow> dl_state" where
  "dl_step limit W targets st ev =
     (case ev of
        DStart \<Rightarrow>
          (case dqueue st of
             [] \<Rightarrow> st
           | i # q \<Rightarrow>
               if length (dchecking st) + length (dloading st) < limit
               then st\<lparr>dqueue := q, dchecking := dchecking st @ [i]\<rparr>
               else st)
      | DCheck i \<Rightarrow> if i \<in> set (dchecking st) then dl_check targets i st else st
      | DLoad i \<Rightarrow> if i \<in> set (dloading st) then dl_load W targets i st else st)"

text \<open>Running one task to its end, from wherever it is.\<close>

definition dl_finish :: "world \<Rightarrow> (string \<times> string) list \<Rightarrow> dl_state \<Rightarrow> nat \<Rightarrow> dl_state" where
  "dl_finish W targets st i =
     (if i \<in> set (dloading st) then dl_load W targets i st
      else (let st' = dl_check targets i st
            in if i \<in> set (dloading st') then dl_load W targets i st' else st'))"

definition dl_drain :: "world \<Rightarrow> (string \<times> string) list \<Rightarrow> dl_state \<Rightarrow> dl_state" where
  "dl_drain W targets st =
     foldl (dl_finish W targets) (st\<lparr>dqueue := [], dchecking := dchecking st @ dqueue st\<rparr>)
       (dloading st @ dchecking st @ dqueue st)"

text \<open>An exception together with the disk at the time it reaches the driver.\<close>

definition at_disk :: "files \<Rightarrow> js_error + 'a \<Rightarrow> (js_error \<times> files) + 'a" where
  "at_disk f m = (case m of Inl e \<Rightarrow> Inl (e, f) | Inr x \<Rightarrow> Inr x)"

definition download_phase ::
  "nat \<Rightarrow> world \<Rightarrow> (string \<times> string) list \<Rightarrow> dl_sched list \<Rightarrow> files
     \<Rightarrow> (js_error \<times> files) + (files \<times> dl_event list)" where
  "download_phase n W targets sched fs0 =
     bindE (at_disk fs0 (pLimit n))
       (\<lambda>limit. let st = dl_drain W targets
                           (foldl (dl_step limit W targets) (dl_init (length targets) fs0) sched)
                 in case dfailed st of
                      Some e \<Rightarrow> Inl (e, fs st)
                    | None \<Rightarrow> Inr (fs st, dlog st))"

subsection \<open>Category crawl orchestrator\<close>

text \<open>The task of one product link (lines 181-189): the body of the page, or the empty
  string when the fetcher throws.\<close>

definition page_client :: "world \<Rightarrow> string option \<Rightarrow> unit \<Rightarrow> nat \<Rightarrow> js_error + response" where
  "page_client W url opts k = page_get W url k"

definition fetch_product :: "world \<Rightarrow> string option \<Rightarrow> string" where
  "fetch_product W url =
     (case fst (fetchWithRetry (page_client W) url () 1) of
        Inr res \<Rightarrow> data res
      | Inl e \<Rightarrow> [])"

text \<open>\<^verbatim>\<open>src/unnamed/part_001\<close>, lines 212-220: the task returns the URL with the body.\<close>

definition fetch_product_p1 :: "world \<Rightarrow> string option \<Rightarrow> string option \<times> string" where
  "fetch_product_p1 W u =
     (case fst (fetchWithRetry (page_client W) u () 1) of
        Inr res \<Rightarrow> (u, data res)
      | Inl e \<Rightarrow> (u, []))"

text \<open>The final image set, lines 194-197: \<open>extractProductImages\<close> runs on every product
  body, the empty ones too.\<close>

definition final_images :: "env \<Rightarrow> string list \<Rightarrow> string list \<Rightarrow> js_error + string list" where
  "final_images E catThumbs productPages =
     bindE (mapE (extractProductImages E) productPages)
       (\<lambda>imgs. Inr (uniq (catThumbs @ concat imgs)))"

text \<open>\<^verbatim>\<open>src/unnamed/part_001\<close>, lines 225-232: a product whose body is empty is skipped.\<close>

definition final_images_p1 ::
  "env \<Rightarrow> string list \<Rightarrow> (string option \<times> string) list \<Rightarrow> js_error + string list" where
  "final_images_p1 E catThumbs productPages =
     bindE (mapE (getProductImages_p1 E) (filter (\<lambda>html. html \<noteq> []) (map snd productPages)))
       (\<lambda>imgs. Inr (uniq_p1 (catThumbs @ concat imgs)))"

text \<open>
  \<open>scrapeCategory(categoryName, relativePath)\<close>, lines 163-224 of
  \<^verbatim>\<open>src/scrape-botech.js\<close>. The two schedules are those of its two pools. The result is
  the exception that ends the category, with the disk it leaves, or what the run computed
  and left behind.
\<close>

record schedules =
  fetch_sched :: "sched_event list"
  download_sched :: "dl_sched list"

record category_run =
  product_links :: "string option list"
  product_pages :: "string list"
  all_images :: "string list"
  targets_of :: "(string \<times> string) list"
  files_after :: files
  download_log :: "dl_event list"

definition scrapeCategory ::
  "env \<Rightarrow> world \<Rightarrow> schedules \<Rightarrow> files \<Rightarrow> string \<Rightarrow> string
     \<Rightarrow> (js_error \<times> files) + category_run" where
  "scrapeCategory E W S fs0 categoryName relativePath =
     (let folder = path_join E OUTPUT_DIR (safeFileName E categoryName) in
      case ensure_dir W folder of
        Some e \<Rightarrow> Inl (e, fs0)
      | None \<Rightarrow>
          bindE (at_disk fs0 (toAbs E (Some relativePath))) (\<lambda>categoryUrl.
          bindE (at_disk fs0 (fst (fetchWithRetry (page_client W) categoryUrl () 1))) (\<lambda>res.
          bindE (at_disk fs0 (extractCategoryImages E (data res))) (\<lambda>catThumbs.
          bindE (at_disk fs0 (extractProductLinks E (data res))) (\<lambda>productLinks.
          bindE (at_disk fs0
                   (runBounded FETCH_CONCURRENCY (fetch_product W) productLinks (fetch_sched S)))
            (\<lambda>productPages.
          bindE (at_disk fs0 (final_images E catThumbs productPages)) (\<lambda>allImages.
          let targets = name_targets E categoryName folder 1 allImages in
          bindE (download_phase DOWNLOAD_CONCURRENCY W targets (download_sched S) fs0)
            (\<lambda>(fs', evs).
               Inr \<lparr>product_links = productLinks, product_pages = productPages,
                    all_images = allImages, targets_of = targets,
                    files_after = fs', download_log = evs\<rparr>))))))))"

text \<open>The same function in \<^verbatim>\<open>src/unnamed/part_001\<close>, lines 191-258.\<close>

definition scrapeCategory_p1 ::
  "env \<Rightarrow> world \<Rightarrow> schedules \<Rightarrow> files \<Rightarrow> string \<Rightarrow> string
     \<Rightarrow> (js_error \<times> files) + category_run" where
  "scrapeCategory_p1 E W S fs0 categoryName relativePath =
     (let folder = path_join E OUTPUT_DIR (safeFileName E categoryName) in
      case ensure_dir W folder of
        Some e \<Rightarrow> Inl (e, fs0)
      | None \<Rightarrow>
          bindE (at_disk fs0 (toAbs_p1 E (Some relativePath))) (\<lambda>categoryUrl.
          bindE (at_disk fs0 (fst (fetchWithRetry (page_client W) categoryUrl () 1))) (\<lambda>catRes.
          bindE (at_disk fs0 (getCategoryPageImageUrls_p1 E (data catRes))) (\<lambda>catThumbs.
          bindE (at_disk fs0 (getProductLinksFromCategory_p1 E (data catRes))) (\<lambda>productLinks.
          bindE (at_disk fs0
                   (runBounded FETCH_CONCURRENCY (fetch_product_p1 W) productLinks (fetch_sched S)))
            (\<lambda>productPages.
          bindE (at_disk fs0 (final_images_p1 E catThumbs productPages)) (\<lambda>allImages.
          let targets = name_targets E categoryName folder 1 allImages in
          bindE (download_phase DOWNLOAD_CONCURRENCY W targets (download_sched S) fs0)
            (\<lambda>(fs', evs).
               Inr \<lparr>product_links = productLinks, product_pages = map snd productPages,
                    all_images = allImages, targets_of = targets,
                    files_after = fs', download_log = evs\<rparr>))))))))"

subsection \<open>Run driver\<close>

text \<open>
  \<open>main\<close>, lines 230-243 of \<^verbatim>\<open>src/scrape-botech.js\<close> and 260-273 of
  \<^verbatim>\<open>src/unnamed/part_001\<close>. The loop is over \<open>Object.entries(CATEGORIES)\<close>, here the list
  \<open>cats\<close> of the pairs of a name and a relative path; \<open>scrape\<close> is the orchestrator, of
  either file. The driver keeps the file system and the lines it has written with
  \<open>console.error\<close> in its \<open>catch\<close>; \<open>attempted\<close> is not in the source: it records the names
  of the categories on which the orchestrator has been called.
  An exception of \<open>fs.ensureDir(OUTPUT_DIR)\<close> is outside the \<open>try\<close> and ends the run.
\<close>

record driver =
  disk :: files
  attempted :: "string list"
  error_lines :: "(string \<times> js_error) list"

text \<open>The body of the loop, once the orchestrator has returned or thrown: the
  \<open>catch\<close> writes the line with the name of the category, and the loop goes on.\<close>

definition after_category :: "driver \<Rightarrow> string \<Rightarrow> (js_error \<times> files) + category_run \<Rightarrow> driver" where
  "after_category d name outcome =
     (case outcome of
        Inl (e, f) \<Rightarrow>
          d\<lparr>disk := f, attempted := attempted d @ [name],
            error_lines := error_lines d @ [(name, e)]\<rparr>
      | Inr r \<Rightarrow> d\<lparr>disk := files_after r, attempted := attempted d @ [name]\<rparr>)"

fun main_loop ::
  "(files \<Rightarrow> string \<Rightarrow> string \<Rightarrow> (js_error \<times> files) + category_run) \<Rightarrow> (string \<times> string) list
     \<Rightarrow> driver \<Rightarrow> driver"
where
  "main_loop scrape [] d = d"
| "main_loop scrape ((name, rel) # cats) d =
     main_loop scrape cats (after_category d name (scrape (disk d) name rel))"

definition main_driver ::
  "world \<Rightarrow> (files \<Rightarrow> string \<Rightarrow> string \<Rightarrow> (js_error \<times> files) + category_run)
     \<Rightarrow> (string \<times> string) list \<Rightarrow> files \<Rightarrow> js_error + driver" where
  "main_driver W scrape cats fs0 =
     (case ensure_dir W OUTPUT_DIR of
        Some e \<Rightarrow> Inl e
      | None \<Rightarrow> Inr (main_loop scrape cats \<lparr>disk = fs0, attempted = [], error_lines = []\<rparr>))"

text \<open>The driver of each file: its own orchestrator, with the schedules of each category.\<close>

definition main :: "env \<Rightarrow> world \<Rightarrow> (string \<Rightarrow> schedules) \<Rightarrow> (string \<times> string) list \<Rightarrow> files \<Rightarrow> js_error + driver" where
  "main E W S cats fs0 = main_driver W (\<lambda>f name rel. scrapeCategory E W (S name) f name rel) cats fs0"

definition main_p1 :: "env \<Rightarrow> world \<Rightarrow> (string \<Rightarrow> schedules) \<Rightarrow> (string \<times> string) list \<Rightarrow> files \<Rightarrow> js_error + driver" where
  "main_p1 E W S cats fs0 = main_driver W (\<lambda>f name rel. scrapeCategory_p1 E W (S name) f name rel) cats fs0"

subsection \<open>A sample environment\<close>

text \<open>
  Closed instances of the theorems below need concrete library functions. The sample
  environment gives the values the libraries give on the inputs used there:
  \<open>path.join\<close> and \<open>path.basename\<close> of POSIX on paths without \<open>.\<close> and \<open>..\<close> segments and
  without a trailing slash, \<open>sanitize-filename\<close> as the removal of the characters
  \<open>/ ? < > \ : * | "\<close>, the URL constructor as the concatenation of the base and a relative
  path, except on \<open>ws://[\<close> and \<open>//\<close>, two inputs on which the WHATWG parser fails
  (an unclosed IPv6 host, an empty host) and the constructor throws a TypeError;
  and a document in which no selector matches.
\<close>

definition sample_href :: "string \<Rightarrow> string \<Rightarrow> js_error + string" where
  "sample_href input base =
     (if input = ''ws://['' \<or> input = ''//'' then Inl TypeError
      else Inr (base @ strip_dot_slash input))"

definition sample_sanitize :: "string \<Rightarrow> string" where
  "sample_sanitize name =
     filter (\<lambda>c. c \<notin> set ''/?<>:*|'' \<and> c \<noteq> CHR 0x5C \<and> c \<noteq> CHR 0x22) name"

definition sample_basename :: "string \<Rightarrow> string" where
  "sample_basename p = rev (takeWhile (\<lambda>c. c \<noteq> CHR ''/'') (rev p))"

definition sample_env :: env where
  "sample_env =
     \<lparr>url_href = sample_href, sanitize = sample_sanitize,
      path_join = (\<lambda>a b. a @ ''/'' @ b), path_basename = sample_basename,
      select = (\<lambda>html sel. [])\<rparr>"

text \<open>A transport that times out twice and answers at the third attempt.\<close>

definition flaky_get :: "string \<Rightarrow> unit \<Rightarrow> nat \<Rightarrow> js_error + response" where
  "flaky_get url opts k =
     (if k < 3 then Inl (TransportError ''timeout'') else Inr \<lparr>data = ''<html></html>''\<rparr>)"

text \<open>
  A sample shop: the listing page of one category shows the thumbnail \<open>a.jpg\<close> and links
  to three products (the first one twice, from the image and from the title); the page of
  the first product shows \<open>a.jpg\<close> again and \<open>b.jpg\<close>, the second product never answers,
  the page of the third shows \<open>c.png\<close>. Every image can be downloaded.
\<close>

definition attrs :: "(string \<times> string) list \<Rightarrow> element" where
  "attrs kvs = map_of kvs"

definition shop_select :: "string \<Rightarrow> string \<Rightarrow> element list" where
  "shop_select html sel =
     (if html = ''LISTING'' \<and> sel = ''.single-product-item .img-holder img''
        then [attrs [(''src'', ''images/produits/a.jpg'')]]
      else if html = ''LISTING''
              \<and> sel = ''.single-product-item .img-holder a, .single-product-item .product-title a''
        then [attrs [(''href'', ''details/p1'')], attrs [(''href'', ''details/p2'')],
              attrs [(''href'', ''details/p3'')], attrs [(''href'', ''details/p1'')]]
      else if html = ''PRODUCT 1'' \<and> sel = ''.img-holder img, .thumb-image img, .thumb-image''
        then [attrs [(''src'', ''/images/produits/a.jpg'')]]
      else if html = ''PRODUCT 1'' \<and> sel = ''img''
        then [attrs [(''src'', ''/images/produits/a.jpg'')],
              attrs [(''src'', ''images/produits/b.jpg'')]]
      else if html = ''PRODUCT 3'' \<and> sel = ''.img-holder img, .thumb-image img, .thumb-image''
        then [attrs [(''data-src'', ''https://www.botech.ma/images/produits/c.png'')]]
      else [])"

definition shop_env :: env where
  "shop_env = sample_env\<lparr>select := shop_select\<rparr>"

definition shop_page :: "string option \<Rightarrow> nat \<Rightarrow> js_error + response" where
  "shop_page url k =
     (if url = Some ''https://www.botech.ma/prod/cat'' then Inr \<lparr>data = ''LISTING''\<rparr>
      else if url = Some ''https://www.botech.ma/details/p1'' then Inr \<lparr>data = ''PRODUCT 1''\<rparr>
      else if url = Some ''https://www.botech.ma/details/p3'' then Inr \<lparr>data = ''PRODUCT 3''\<rparr>
      else Inl (TransportError ''503''))"

definition shop_world :: world where
  "shop_world =
     \<lparr>page_get = shop_page, asset_get = (\<lambda>url k. Inr \<lparr>data = ''bytes''\<rparr>),
      write_file = (\<lambda>dest k. None), ensure_dir = (\<lambda>dir. None),
      ensure_dest_dir = (\<lambda>dest k. None)\<rparr>"

text \<open>Schedules in which the tasks do not complete in the order of their start.\<close>

definition shop_schedules :: schedules where
  "shop_schedules =
     \<lparr>fetch_sched = [Start, Start, Start, Complete 2, Complete 0, Complete 1],
      download_sched = [DStart, DStart, DCheck 1, DLoad 1, DStart, DCheck 0, DCheck 2, DLoad 2]\<rparr>"

subsection \<open>Invariants of the two pools\<close>

text \<open>Every task is queued, running, or has its value stored at its own index.\<close>

definition pool_inv :: "('a \<Rightarrow> 'r) \<Rightarrow> 'a list \<Rightarrow> 'r pool \<Rightarrow> bool" where
  "pool_inv worker items P =
     (length (results P) = length items
      \<and> (\<forall>i \<in> set (queue P) \<union> set (active P). i < length items)
      \<and> (\<forall>i < length items. i \<in> set (queue P) \<union> set (active P)
            \<or> results P ! i = Some (worker (items ! i))))"

text \<open>While every destination exists, no task is loading, nothing has been fetched or
  thrown and the file system is the initial one.\<close>

definition dl_idle :: "(string \<times> string) list \<Rightarrow> files \<Rightarrow> dl_state \<Rightarrow> bool" where
  "dl_idle targets fs0 st =
     (fs st = fs0 \<and> dlog st = [] \<and> dloading st = [] \<and> dfailed st = None
      \<and> (\<forall>i \<in> set (dqueue st) \<union> set (dchecking st). i < length targets))"

text \<open>The disk after a complete run over the sample category, and two categories for the
  driver, the first of which has no listing page.\<close>

definition shop_disk :: files where
  "shop_disk =
     map_of [(''botech_images/Cat_A/a.jpg'', ''bytes''), (''botech_images/Cat_A/b.jpg'', ''bytes''),
             (''botech_images/Cat_A/c.png'', ''bytes'')]"

definition shop_categories :: "(string \<times> string) list" where
  "shop_categories = [(''Broken'', ''prod/none''), (''Cat A'', ''prod/cat'')]"



section \<open>Properties\<close>

subsection \<open>De-duplication\<close>

lemma set_add_distinct: "distinct s \<Longrightarrow> distinct (set_add s x)"
  by (simp add: set_add_def)

lemma foldl_set_add_distinct: "distinct s \<Longrightarrow> distinct (foldl set_add s xs)"
  by (induction xs arbitrary: s) (simp_all add: set_add_distinct)

lemma foldl_set_add_set: "set (foldl set_add s xs) = set s \<union> set xs"
  by (induction xs arbitrary: s) (auto simp: set_add_def)

lemma uniq_distinct: "distinct (uniq xs)"
  by (simp add: uniq_def new_Set_def foldl_set_add_distinct)

lemma uniq_set: "set (uniq xs) = set xs"
  by (simp add: uniq_def new_Set_def foldl_set_add_set)

lemma uniq_loop_distinct:
  "distinct out \<Longrightarrow> set out \<subseteq> s \<Longrightarrow> distinct (uniq_loop xs s out)"
  by (induction xs s out rule: uniq_loop.induct) auto

lemma uniq_loop_set:
  "set out = s \<Longrightarrow> set (uniq_loop xs s out) = s \<union> set xs"
  by (induction xs s out rule: uniq_loop.induct) auto

lemma uniq_p1_distinct: "distinct (uniq_p1 xs)"
  by (simp add: uniq_p1_def uniq_loop_distinct)

lemma uniq_p1_set: "set (uniq_p1 xs) = set xs"
  by (simp add: uniq_p1_def uniq_loop_set)

subsection \<open>Sequencing\<close>

lemma bindE_Inr_iff: "bindE m f = Inr y \<longleftrightarrow> (\<exists>x. m = Inr x \<and> f x = Inr y)"
  by (cases m) (simp_all add: bindE_def)

lemma bindE_Inl_iff: "bindE m f = Inl e \<longleftrightarrow> (m = Inl e \<or> (\<exists>x. m = Inr x \<and> f x = Inl e))"
  by (cases m) (simp_all add: bindE_def)

lemma at_disk_Inr_iff: "at_disk f m = Inr x \<longleftrightarrow> m = Inr x"
  by (cases m) (simp_all add: at_disk_def)

lemma at_disk_Inl_iff: "at_disk f m = Inl z \<longleftrightarrow> (\<exists>e. m = Inl e \<and> z = (e, f))"
  by (cases m) (auto simp: at_disk_def)

subsection \<open>Retrying fetcher\<close>

lemma fetchWithRetry_unrolled:
  "fetchWithRetry get url opts 1 =
     (case get url opts 1 of
        Inr r \<Rightarrow> (Inr r, [Get url 1])
      | Inl e1 \<Rightarrow>
          (case get url opts 2 of
             Inr r \<Rightarrow> (Inr r, [Get url 1, Sleep 1200, Get url 2])
           | Inl e2 \<Rightarrow>
               (get url opts 3, [Get url 1, Sleep 1200, Get url 2, Sleep 2400, Get url 3])))"
proof -
  have three: "fetchWithRetry get url opts 3 = (get url opts 3, [Get url 3])"
    by (subst fetchWithRetry.simps) (simp add: MAX_RETRIES_def split: sum.split)
  have two: "fetchWithRetry get url opts 2 =
      (case get url opts 2 of
         Inr r \<Rightarrow> (Inr r, [Get url 2])
       | Inl e2 \<Rightarrow> (get url opts 3, [Get url 2, Sleep 2400, Get url 3]))"
    by (subst fetchWithRetry.simps)
       (simp add: three MAX_RETRIES_def RETRY_DELAY_MS_def split: sum.split)
  have one: "fetchWithRetry get url opts 1 =
      (case get url opts 1 of
         Inr res \<Rightarrow> (Inr res, [Get url 1])
       | Inl e \<Rightarrow>
           if 1 \<ge> MAX_RETRIES then (Inl e, [Get url 1])
           else (case fetchWithRetry get url opts (1 + 1) of
                   (r, evs) \<Rightarrow> (r, Get url 1 # Sleep (RETRY_DELAY_MS * 1) # evs)))"
    by (rule fetchWithRetry.simps)
  have oo: "(1::nat) + 1 = 2" by simp
  show ?thesis
    unfolding one oo two by (simp add: MAX_RETRIES_def RETRY_DELAY_MS_def split: sum.split)
qed

lemma upt_small: "[1..<1::nat] = []" "[1..<2::nat] = [1]" "[1..<3::nat] = [1, 2]"
  by code_simp+

subsection \<open>URL normalizer\<close>

lemma lower_char_h: "lower_char c = CHR ''h'' \<Longrightarrow> c = CHR ''h'' \<or> c = CHR ''H''"
  by (simp add: lower_char_def split: if_splits)

lemma lower_prefix_ci: "prefix ''http://'' u \<or> prefix ''https://'' u \<Longrightarrow> has_scheme_ci u"
  by (auto simp: has_scheme_ci_def prefix_def toLowerCase_def lower_char_def)

lemma slash_not_ci: "\<not> has_scheme_ci (CHR ''/'' # r)"
  by (simp add: has_scheme_ci_def toLowerCase_def lower_char_def)

lemma ci_head: "has_scheme_ci u \<Longrightarrow> \<exists>c r. u = c # r \<and> (c = CHR ''h'' \<or> c = CHR ''H'')"
proof (cases u)
  case Nil
  then show "has_scheme_ci u \<Longrightarrow> ?thesis" by (simp add: has_scheme_ci_def toLowerCase_def)
next
  case (Cons c r)
  assume "has_scheme_ci u"
  then have "lower_char c = CHR ''h''"
    using Cons by (auto simp: has_scheme_ci_def toLowerCase_def)
  then show ?thesis using Cons lower_char_h by blast
qed

lemma ci_not_slash:
  assumes "has_scheme_ci u"
  shows "\<not> startsWith u ''/''" and "strip_dot_slash u = u" and "u \<noteq> []"
  using ci_head [OF assms] by (auto simp: startsWith_def)


lemma resolve_Inl_iff: "resolve E x = Inl e \<longleftrightarrow> url_href E x BASE_URL = Inl e"
  by (simp add: resolve_def split: sum.split)

lemma resolve_not_null: "resolve E x \<noteq> Inr None"
  by (simp add: resolve_def split: sum.split)

lemma resolve_eq_iff: "resolve E x = resolve E y \<longleftrightarrow> url_href E x BASE_URL = url_href E y BASE_URL"
  by (auto simp: resolve_def split: sum.splits)

lemma resolve_Some_iff: "resolve E x = Inr (Some h) \<longleftrightarrow> url_href E x BASE_URL = Inr h"
  by (auto simp: resolve_def split: sum.splits)

lemma toAbs_nulls:
  "toAbs E None = Inr None" "toAbs E (Some []) = Inr None"
  "toAbs_p1 E None = Inr None" "toAbs_p1 E (Some []) = Inr None"
  by (simp_all add: toAbs_def toAbs_p1_def)

lemma toAbs_lower:
  assumes "prefix ''http://'' u \<or> prefix ''https://'' u"
  shows "toAbs E (Some u) = Inr (Some u)" and "toAbs_p1 E (Some u) = Inr (Some u)"
  using assms lower_prefix_ci [OF assms] ci_not_slash(3) [OF lower_prefix_ci [OF assms]]
  by (simp_all add: toAbs_def toAbs_p1_def startsWith_def)

lemma toAbs_upper:
  assumes "has_scheme_ci u" and "\<not> prefix ''http://'' u" and "\<not> prefix ''https://'' u"
  shows "toAbs E (Some u) = Inr (Some u)" and "toAbs_p1 E (Some u) = Inr (Some (BASE_URL @ u))"
  using assms ci_not_slash [of u]
  by (simp_all add: toAbs_def toAbs_p1_def startsWith_def)

lemma toAbs_slash:
  "toAbs E (Some (CHR ''/'' # r)) = resolve E r"
  "toAbs_p1 E (Some (CHR ''/'' # r)) = resolve E (CHR ''/'' # r)"
  using slash_not_ci [of r] by (simp_all add: toAbs_def toAbs_p1_def startsWith_def)

lemma toAbs_other:
  assumes "u \<noteq> []" and "\<not> has_scheme_ci u" and "\<not> prefix ''/'' u"
  shows "toAbs E (Some u) = resolve E (strip_dot_slash u)"
    and "toAbs_p1 E (Some u) = Inr (Some (BASE_URL @ strip_dot_slash u))"
  using assms lower_prefix_ci [of u]
  by (auto simp: toAbs_def toAbs_p1_def startsWith_def)

subsection \<open>The pipeline stores every value at its own index\<close>

lemma non_null_map_Some: "non_null (map Some xs) = xs"
  by (induction xs) (simp_all add: non_null_def)

lemma pool_init_inv: "pool_inv worker items (pool_init (length items))"
  by (simp add: pool_inv_def pool_init_def)

lemma pool_complete_inv:
  assumes "pool_inv worker items P"
  shows "pool_inv worker items (pool_complete worker items i P)"
proof -
  let ?Q = "pool_complete worker items i P"
  have len: "length (results P) = length items"
    and bound: "\<forall>k \<in> set (queue P) \<union> set (active P). k < length items"
    and fin: "\<forall>k < length items. k \<in> set (queue P) \<union> set (active P)
         \<or> results P ! k = Some (worker (items ! k))"
    using assms by (simp_all add: pool_inv_def)
  have "k \<in> set (queue ?Q) \<union> set (active ?Q) \<or> results ?Q ! k = Some (worker (items ! k))"
    if k: "k < length items" for k
  proof (cases "k = i")
    case True
    then show ?thesis using k len by (simp add: pool_complete_def)
  next
    case False
    then show ?thesis using fin k by (auto simp: pool_complete_def)
  qed
  moreover have "length (results ?Q) = length items"
    using len by (simp add: pool_complete_def)
  moreover have "\<forall>k \<in> set (queue ?Q) \<union> set (active ?Q). k < length items"
    using bound by (auto simp: pool_complete_def)
  ultimately show ?thesis
    unfolding pool_inv_def by blast
qed

lemma pool_step_inv:
  "pool_inv worker items P \<Longrightarrow> pool_inv worker items (pool_step limit worker items P ev)"
proof (cases ev)
  case Start
  assume "pool_inv worker items P"
  then show ?thesis
    using Start by (cases "queue P") (auto simp: pool_step_def pool_inv_def)
next
  case (Complete i)
  assume "pool_inv worker items P"
  then show ?thesis
    using Complete by (simp add: pool_step_def pool_complete_inv)
qed

lemma pool_steps_inv:
  "pool_inv worker items P \<Longrightarrow> pool_inv worker items (foldl (pool_step limit worker items) P sched)"
  by (induction sched arbitrary: P) (simp_all add: pool_step_inv)

lemma pool_completes:
  "length (results (foldl (\<lambda>Q i. pool_complete worker items i Q) P L)) = length (results P)
   \<and> (\<forall>j < length (results P).
        results (foldl (\<lambda>Q i. pool_complete worker items i Q) P L) ! j =
          (if j \<in> set L then Some (worker (items ! j)) else results P ! j))"
proof (induction L arbitrary: P)
  case Nil
  then show ?case by simp
next
  case (Cons i L)
  have len: "length (results (pool_complete worker items i P)) = length (results P)"
    by (simp add: pool_complete_def)
  have nth: "results (pool_complete worker items i P) ! j =
      (if j = i then Some (worker (items ! j)) else results P ! j)"
    if "j < length (results P)" for j
    using that by (simp add: pool_complete_def nth_list_update)
  show ?case
    using Cons.IH [of "pool_complete worker items i P"] len nth by auto
qed

lemma pool_drain_results:
  assumes "pool_inv worker items P"
  shows "results (pool_drain worker items P) = map (\<lambda>x. Some (worker x)) items"
proof (rule nth_equalityI)
  let ?P' = "P\<lparr>queue := [], active := active P @ queue P\<rparr>"
  let ?L = "active P @ queue P"
  have len: "length (results P) = length items"
    using assms by (simp add: pool_inv_def)
  have c: "length (results (pool_drain worker items P)) = length (results ?P')"
    "\<forall>j < length (results ?P'). results (pool_drain worker items P) ! j =
        (if j \<in> set ?L then Some (worker (items ! j)) else results ?P' ! j)"
    using pool_completes [of worker items ?P' ?L] by (simp_all add: pool_drain_def)
  show "length (results (pool_drain worker items P)) = length (map (\<lambda>x. Some (worker x)) items)"
    using c(1) len by simp
  fix j
  assume "j < length (results (pool_drain worker items P))"
  then have j: "j < length items" using c(1) len by simp
  then have "j \<in> set ?L \<or> results P ! j = Some (worker (items ! j))"
    using assms by (auto simp: pool_inv_def)
  then show "results (pool_drain worker items P) ! j = map (\<lambda>x. Some (worker x)) items ! j"
    using c(2) j len by auto
qed

lemma pool_run_results:
  "results (pool_run limit worker items sched) = map (\<lambda>x. Some (worker x)) items"
  unfolding pool_run_def
  by (rule pool_drain_results) (rule pool_steps_inv, rule pool_init_inv)

lemma runBounded_map:
  "1 \<le> n \<Longrightarrow> runBounded n worker items sched = Inr (map worker items)"
proof -
  assume "1 \<le> n"
  have "map (\<lambda>x. Some (worker x)) items = map Some (map worker items)" by simp
  then have "non_null (results (pool_run n worker items sched)) = map worker items"
    by (simp only: pool_run_results non_null_map_Some)
  then show ?thesis
    using \<open>1 \<le> n\<close> by (simp add: runBounded_def pLimit_def bindE_def)
qed

subsection \<open>The download pool when every destination exists\<close>

lemma dl_init_idle: "dl_idle targets fs0 (dl_init (length targets) fs0)"
  by (simp add: dl_idle_def dl_init_def)

lemma dl_check_idle:
  assumes "dl_idle targets fs0 st" and "i < length targets"
    and "\<forall>t \<in> set targets. pathExists fs0 (snd t)"
  shows "dl_idle targets fs0 (dl_check targets i st)"
proof -
  have "pathExists (fs st) (snd (targets ! i))"
    using assms by (simp add: dl_idle_def)
  then show ?thesis
    using assms(1) by (auto simp: dl_check_def dl_idle_def)
qed

lemma dl_step_idle:
  assumes "dl_idle targets fs0 st" and "\<forall>t \<in> set targets. pathExists fs0 (snd t)"
  shows "dl_idle targets fs0 (dl_step limit W targets st ev)"
proof (cases ev)
  case DStart
  then show ?thesis
    using assms(1) by (cases "dqueue st") (auto simp: dl_step_def dl_idle_def)
next
  case (DCheck i)
  show ?thesis
  proof (cases "i \<in> set (dchecking st)")
    case True
    then have "i < length targets" using assms(1) by (simp add: dl_idle_def)
    then show ?thesis
      using DCheck True dl_check_idle [OF assms(1) _ assms(2)] by (simp add: dl_step_def)
  next
    case False
    then show ?thesis using DCheck assms(1) by (simp add: dl_step_def)
  qed
next
  case (DLoad i)
  then show ?thesis using assms(1) by (simp add: dl_step_def dl_idle_def)
qed

lemma dl_steps_idle:
  assumes "\<forall>t \<in> set targets. pathExists fs0 (snd t)"
  shows "dl_idle targets fs0 st \<Longrightarrow> dl_idle targets fs0 (foldl (dl_step limit W targets) st sched)"
  by (induction sched arbitrary: st) (simp_all add: dl_step_idle [OF _ assms])

lemma dl_finish_idle:
  assumes "dl_idle targets fs0 st" and "i < length targets"
    and "\<forall>t \<in> set targets. pathExists fs0 (snd t)"
  shows "dl_idle targets fs0 (dl_finish W targets st i)"
proof -
  have a: "i \<notin> set (dloading st)" using assms(1) by (simp add: dl_idle_def)
  have b: "dl_idle targets fs0 (dl_check targets i st)"
    by (rule dl_check_idle [OF assms])
  then have "i \<notin> set (dloading (dl_check targets i st))" by (simp add: dl_idle_def)
  then show ?thesis using a b by (simp add: dl_finish_def Let_def)
qed

lemma dl_finishes_idle:
  assumes "\<forall>t \<in> set targets. pathExists fs0 (snd t)"
  shows "dl_idle targets fs0 st \<Longrightarrow> \<forall>i \<in> set L. i < length targets
     \<Longrightarrow> dl_idle targets fs0 (foldl (dl_finish W targets) st L)"
  by (induction L arbitrary: st) (simp_all add: dl_finish_idle [OF _ _ assms])

lemma dl_drain_idle:
  assumes "\<forall>t \<in> set targets. pathExists fs0 (snd t)" and "dl_idle targets fs0 st"
  shows "dl_idle targets fs0 (dl_drain W targets st)"
proof -
  have "dl_idle targets fs0 (st\<lparr>dqueue := [], dchecking := dchecking st @ dqueue st\<rparr>)"
    using assms(2) by (auto simp: dl_idle_def)
  moreover have "\<forall>i \<in> set (dloading st @ dchecking st @ dqueue st). i < length targets"
    using assms(2) by (auto simp: dl_idle_def)
  ultimately show ?thesis
    unfolding dl_drain_def by (rule dl_finishes_idle [OF assms(1)])
qed

lemma download_phase_idle:
  assumes "1 \<le> n" and "\<forall>t \<in> set targets. pathExists fs0 (snd t)"
  shows "download_phase n W targets sched fs0 = Inr (fs0, [])"
proof -
  have "dl_idle targets fs0
      (dl_drain W targets (foldl (dl_step n W targets) (dl_init (length targets) fs0) sched))"
    by (intro dl_drain_idle dl_steps_idle dl_init_idle assms(2))
  then show ?thesis
    using assms(1)
    by (simp add: download_phase_def pLimit_def bindE_def at_disk_def dl_idle_def)
qed

subsection \<open>The download pool when no directory creation throws\<close>

lemma downloadFile_no_throw:
  "\<forall>d k. ensure_dest_dir W d k = None \<Longrightarrow> fst (downloadFile W url dest attempt f) = None"
proof (induction W url dest attempt f rule: downloadFile.induct)
  case (1 W url dest attempt f)
  have e: "ensure_dest_dir W dest attempt = None" using "1.prems" by simp
  show ?case
  proof (cases "case asset_get W url attempt of
                   Inl e \<Rightarrow> Inl e
                 | Inr res \<Rightarrow> (case write_file W dest attempt of
                                 Some e \<Rightarrow> Inl e
                               | None \<Rightarrow> Inr res)")
    case (Inr res)
    then show ?thesis
      by (subst downloadFile.simps) (simp add: e)
  next
    case (Inl x)
    show ?thesis
    proof (cases "attempt \<ge> MAX_RETRIES")
      case True
      then show ?thesis
        using Inl by (subst downloadFile.simps) (simp add: e)
    next
      case False
      have "fst (downloadFile W url dest (attempt + 1) f) = None"
        using "1.IH" [OF e _ False] Inl "1.prems" by simp
      then show ?thesis
        using Inl False
        by (subst downloadFile.simps) (auto simp: e split: prod.split)
    qed
  qed
qed

lemma dl_check_failed: "dfailed (dl_check targets i st) = dfailed st"
  by (simp add: dl_check_def)

lemma dl_load_quiet:
  assumes "\<forall>d k. ensure_dest_dir W d k = None" and "dfailed st = None"
  shows "dfailed (dl_load W targets i st) = None"
  using downloadFile_no_throw [OF assms(1), of "fst (targets ! i)" "snd (targets ! i)" 1 "fs st"]
    assms(2)
  by (auto simp: dl_load_def split: prod.split)

lemma dl_step_quiet:
  assumes "\<forall>d k. ensure_dest_dir W d k = None" and "dfailed st = None"
  shows "dfailed (dl_step limit W targets st ev) = None"
proof (cases ev)
  case DStart
  then show ?thesis
    using assms(2) by (cases "dqueue st") (simp_all add: dl_step_def)
next
  case (DCheck i)
  then show ?thesis using assms(2) by (simp add: dl_step_def dl_check_failed)
next
  case (DLoad i)
  then show ?thesis using assms by (simp add: dl_step_def dl_load_quiet)
qed

lemma dl_steps_quiet:
  assumes "\<forall>d k. ensure_dest_dir W d k = None"
  shows "dfailed st = None \<Longrightarrow> dfailed (foldl (dl_step limit W targets) st sched) = None"
  by (induction sched arbitrary: st) (simp_all add: dl_step_quiet [OF assms])

lemma dl_finish_quiet:
  assumes "\<forall>d k. ensure_dest_dir W d k = None" and "dfailed st = None"
  shows "dfailed (dl_finish W targets st i) = None"
  using assms by (simp add: dl_finish_def Let_def dl_load_quiet dl_check_failed)

lemma dl_finishes_quiet:
  assumes "\<forall>d k. ensure_dest_dir W d k = None"
  shows "dfailed st = None \<Longrightarrow> dfailed (foldl (dl_finish W targets) st L) = None"
  by (induction L arbitrary: st) (simp_all add: dl_finish_quiet [OF assms])

lemma dl_drain_quiet:
  assumes "\<forall>d k. ensure_dest_dir W d k = None" and "dfailed st = None"
  shows "dfailed (dl_drain W targets st) = None"
  unfolding dl_drain_def using assms(2) by (intro dl_finishes_quiet [OF assms(1)]) simp

lemma download_phase_Inr:
  assumes "1 \<le> n" and "\<forall>d k. ensure_dest_dir W d k = None"
  shows "\<exists>fs' evs. download_phase n W targets sched fs0 = Inr (fs', evs)"
proof -
  have "dfailed (dl_drain W targets
      (foldl (dl_step n W targets) (dl_init (length targets) fs0) sched)) = None"
    by (intro dl_drain_quiet dl_steps_quiet assms(2)) (simp add: dl_init_def)
  then show ?thesis
    using assms(1) by (simp add: download_phase_def pLimit_def bindE_def at_disk_def Let_def)
qed

subsection \<open>What a successful category run consists of\<close>

lemma fetch_phase: "runBounded FETCH_CONCURRENCY worker items sched = Inr (map worker items)"
  by (rule runBounded_map) (simp add: FETCH_CONCURRENCY_def)

lemma snd_fetch_product_p1: "snd (fetch_product_p1 W u) = fetch_product W u"
  by (simp add: fetch_product_p1_def fetch_product_def split: sum.split)

lemma scrapeCategory_InrD:
  assumes "scrapeCategory E W S fs0 name rel = Inr run"
  shows "\<exists>url res thumbs.
      ensure_dir W (path_join E OUTPUT_DIR (safeFileName E name)) = None
      \<and> toAbs E (Some rel) = Inr url
      \<and> fst (fetchWithRetry (page_client W) url () 1) = Inr res
      \<and> extractCategoryImages E (data res) = Inr thumbs
      \<and> extractProductLinks E (data res) = Inr (product_links run)
      \<and> product_pages run = map (fetch_product W) (product_links run)
      \<and> final_images E thumbs (product_pages run) = Inr (all_images run)
      \<and> targets_of run =
          name_targets E name (path_join E OUTPUT_DIR (safeFileName E name)) 1 (all_images run)
      \<and> download_phase DOWNLOAD_CONCURRENCY W (targets_of run) (download_sched S) fs0 =
          Inr (files_after run, download_log run)"
  using assms unfolding scrapeCategory_def Let_def
  by (auto simp: bindE_Inr_iff at_disk_Inr_iff fetch_phase split: option.splits prod.splits)

lemma scrapeCategory_p1_InrD:
  assumes "scrapeCategory_p1 E W S fs0 name rel = Inr run"
  shows "\<exists>url res thumbs.
      ensure_dir W (path_join E OUTPUT_DIR (safeFileName E name)) = None
      \<and> toAbs_p1 E (Some rel) = Inr url
      \<and> fst (fetchWithRetry (page_client W) url () 1) = Inr res
      \<and> getCategoryPageImageUrls_p1 E (data res) = Inr thumbs
      \<and> getProductLinksFromCategory_p1 E (data res) = Inr (product_links run)
      \<and> product_pages run = map (fetch_product W) (product_links run)
      \<and> final_images_p1 E thumbs (map (fetch_product_p1 W) (product_links run)) =
          Inr (all_images run)
      \<and> targets_of run =
          name_targets E name (path_join E OUTPUT_DIR (safeFileName E name)) 1 (all_images run)
      \<and> download_phase DOWNLOAD_CONCURRENCY W (targets_of run) (download_sched S) fs0 =
          Inr (files_after run, download_log run)"
  using assms unfolding scrapeCategory_p1_def Let_def
  by (auto simp: bindE_Inr_iff at_disk_Inr_iff fetch_phase snd_fetch_product_p1 comp_def
           split: option.splits prod.splits)

lemma final_images_distinct: "final_images E thumbs pages = Inr imgs \<Longrightarrow> distinct imgs"
  by (auto simp: final_images_def bindE_Inr_iff uniq_distinct)

lemma final_images_p1_distinct: "final_images_p1 E thumbs pages = Inr imgs \<Longrightarrow> distinct imgs"
  by (auto simp: final_images_p1_def bindE_Inr_iff uniq_p1_distinct)

lemma name_targets_fst: "map fst (name_targets E name folder index imgs) = imgs"
  by (induction imgs arbitrary: index) (simp_all split: prod.split)

lemma distinct_count_one: "distinct xs \<Longrightarrow> x \<in> set xs \<Longrightarrow> count_list xs x = 1"
  by (induction xs) auto

lemma scrapeCategory_InrI:
  assumes "ensure_dir W (path_join E OUTPUT_DIR (safeFileName E name)) = None"
    and "toAbs E (Some rel) = Inr url"
    and "fst (fetchWithRetry (page_client W) url () 1) = Inr res"
    and "extractCategoryImages E (data res) = Inr thumbs"
    and "extractProductLinks E (data res) = Inr links"
    and "final_images E thumbs (map (fetch_product W) links) = Inr imgs"
    and "\<forall>d k. ensure_dest_dir W d k = None"
  shows "\<exists>run. scrapeCategory E W S fs0 name rel = Inr run
      \<and> product_links run = links \<and> product_pages run = map (fetch_product W) links
      \<and> all_images run = imgs
      \<and> targets_of run = name_targets E name (path_join E OUTPUT_DIR (safeFileName E name)) 1 imgs"
proof -
  have "1 \<le> DOWNLOAD_CONCURRENCY" by (simp add: DOWNLOAD_CONCURRENCY_def)
  from download_phase_Inr [OF this assms(7)]
  obtain fs' evs where "download_phase DOWNLOAD_CONCURRENCY W
      (name_targets E name (path_join E OUTPUT_DIR (safeFileName E name)) 1 imgs)
      (download_sched S) fs0 = Inr (fs', evs)"
    by blast
  then show ?thesis
    using assms(1-6) unfolding scrapeCategory_def Let_def
    by (simp add: bindE_def at_disk_def fetch_phase)
qed

lemma scrapeCategory_p1_InrI:
  assumes "ensure_dir W (path_join E OUTPUT_DIR (safeFileName E name)) = None"
    and "toAbs_p1 E (Some rel) = Inr url"
    and "fst (fetchWithRetry (page_client W) url () 1) = Inr res"
    and "getCategoryPageImageUrls_p1 E (data res) = Inr thumbs"
    and "getProductLinksFromCategory_p1 E (data res) = Inr links"
    and "final_images_p1 E thumbs (map (fetch_product_p1 W) links) = Inr imgs"
    and "\<forall>d k. ensure_dest_dir W d k = None"
  shows "\<exists>run. scrapeCategory_p1 E W S fs0 name rel = Inr run
      \<and> product_links run = links \<and> product_pages run = map (fetch_product W) links
      \<and> all_images run = imgs
      \<and> targets_of run = name_targets E name (path_join E OUTPUT_DIR (safeFileName E name)) 1 imgs"
proof -
  have "1 \<le> DOWNLOAD_CONCURRENCY" by (simp add: DOWNLOAD_CONCURRENCY_def)
  from download_phase_Inr [OF this assms(7)]
  obtain fs' evs where "download_phase DOWNLOAD_CONCURRENCY W
      (name_targets E name (path_join E OUTPUT_DIR (safeFileName E name)) 1 imgs)
      (download_sched S) fs0 = Inr (fs', evs)"
    by blast
  then show ?thesis
    using assms(1-6) unfolding scrapeCategory_p1_def Let_def
    by (simp add: bindE_def at_disk_def fetch_phase snd_fetch_product_p1 comp_def)
qed

subsection \<open>Failed fetches and the final image set\<close>

lemma fetch_all_failed:
  assumes "\<forall>k. 1 \<le> k \<and> k \<le> MAX_RETRIES \<longrightarrow> isl (get url opts k)"
  shows "isl (fst (fetchWithRetry get url opts 1))"
proof -
  have "isl (get url opts 1)" "isl (get url opts 2)" "isl (get url opts 3)"
    using assms by (simp_all add: MAX_RETRIES_def)
  then show ?thesis
    unfolding fetchWithRetry_unrolled by (auto simp: isl_def)
qed

lemma fetch_product_failed:
  assumes "\<forall>k. 1 \<le> k \<and> k \<le> MAX_RETRIES \<longrightarrow> isl (page_get W u k)"
  shows "fetch_product W u = []" and "fetch_product_p1 W u = (u, [])"
proof -
  have "isl (fst (fetchWithRetry (page_client W) u () 1))"
    by (rule fetch_all_failed) (simp add: page_client_def assms)
  then show "fetch_product W u = []" and "fetch_product_p1 W u = (u, [])"
    by (auto simp: fetch_product_def fetch_product_p1_def isl_def)
qed

lemma fetch_product_first:
  "page_get W u 1 = Inr res \<Longrightarrow> fetch_product W u = data res"
  unfolding fetch_product_def fetchWithRetry_unrolled by (simp add: page_client_def)

lemma mapE_Inr_mem:
  "mapE f xs = Inr ys \<Longrightarrow> x \<in> set xs \<Longrightarrow> \<exists>y. f x = Inr y \<and> y \<in> set ys"
  by (induction xs arbitrary: ys) (auto simp: bindE_Inr_iff)

lemma final_images_covers:
  assumes "final_images E thumbs pages = Inr all" and "html \<in> set pages"
    and "extractProductImages E html = Inr imgs"
  shows "set thumbs \<subseteq> set all" and "set imgs \<subseteq> set all"
proof -
  from assms(1) obtain lists where l: "mapE (extractProductImages E) pages = Inr lists"
    and a: "all = uniq (thumbs @ concat lists)"
    by (auto simp: final_images_def bindE_Inr_iff)
  from mapE_Inr_mem [OF l assms(2)] assms(3) have "imgs \<in> set lists" by auto
  then show "set imgs \<subseteq> set all" by (auto simp: a uniq_set)
  show "set thumbs \<subseteq> set all" by (auto simp: a uniq_set)
qed

lemma final_images_p1_covers:
  assumes "final_images_p1 E thumbs pages = Inr all" and "(u, html) \<in> set pages"
    and "html \<noteq> []" and "getProductImages_p1 E html = Inr imgs"
  shows "set imgs \<subseteq> set all"
proof -
  from assms(1) obtain lists
    where l: "mapE (getProductImages_p1 E) (filter (\<lambda>html. html \<noteq> []) (map snd pages)) = Inr lists"
    and a: "all = uniq_p1 (thumbs @ concat lists)"
    by (auto simp: final_images_p1_def bindE_Inr_iff)
  have "html \<in> set (filter (\<lambda>html. html \<noteq> []) (map snd pages))"
    using assms(2,3) by force
  from mapE_Inr_mem [OF l this] assms(4) have "imgs \<in> set lists" by auto
  then show "set imgs \<subseteq> set all" by (auto simp: a uniq_p1_set)
qed

lemma extract_empty_body:
  assumes "\<forall>sel. select E [] sel = []"
  shows "extractProductImages E [] = Inr []"
  using assms by (simp add: extractProductImages_def bindE_def non_null_def)

subsection \<open>The loop of the run driver\<close>

lemma after_category_attempted:
  "attempted (after_category d name outcome) = attempted d @ [name]"
  by (simp add: after_category_def split: sum.split prod.split)

lemma after_category_errors:
  "error_lines (after_category d name outcome) =
     error_lines d @ (case outcome of Inl (e, f) \<Rightarrow> [(name, e)] | Inr r \<Rightarrow> [])"
  by (simp add: after_category_def split: sum.split prod.split)

lemma main_loop_append:
  "main_loop scrape (xs @ ys) d = main_loop scrape ys (main_loop scrape xs d)"
proof (induction xs arbitrary: d)
  case Nil
  then show ?case by simp
next
  case (Cons c xs)
  then show ?case by (cases c) simp
qed

lemma main_loop_snoc:
  "main_loop scrape (xs @ [(name, rel)]) d =
     after_category (main_loop scrape xs d) name (scrape (disk (main_loop scrape xs d)) name rel)"
  by (simp add: main_loop_append)

lemma main_loop_attempted:
  "attempted (main_loop scrape cats d) = attempted d @ map fst cats"
proof (induction cats arbitrary: d)
  case Nil
  then show ?case by simp
next
  case (Cons c cats)
  then show ?case by (cases c) (simp add: after_category_attempted)
qed

lemma snoc_eq_split:
  "xs @ [x] = ys @ y # zs \<longleftrightarrow>
     (zs = [] \<and> xs = ys \<and> x = y) \<or> (\<exists>zs'. zs = zs' @ [x] \<and> xs = ys @ y # zs')"
proof (cases zs rule: rev_cases)
  case Nil
  then show ?thesis by auto
next
  case (snoc zs' z)
  have "xs @ [x] = (ys @ y # zs') @ [z] \<longleftrightarrow> xs = ys @ y # zs' \<and> x = z"
    by (rule append1_eq_conv)
  then show ?thesis using snoc by auto
qed

lemma main_loop_errors_iff:
  "(name, e) \<in> set (error_lines (main_loop scrape cats d0)) \<longleftrightarrow>
     (name, e) \<in> set (error_lines d0)
     \<or> (\<exists>pre rel post f. cats = pre @ (name, rel) # post
           \<and> scrape (disk (main_loop scrape pre d0)) name rel = Inl (e, f))"
proof (induction cats rule: rev_induct)
  case Nil
  then show ?case by simp
next
  case (snoc c cats)
  obtain n r where c: "c = (n, r)" by (cases c)
  let ?d = "main_loop scrape cats d0"
  let ?new = "\<exists>f. n = name \<and> scrape (disk ?d) n r = Inl (e, f)"
  let ?old = "\<exists>pre rel post f. cats = pre @ (name, rel) # post
           \<and> scrape (disk (main_loop scrape pre d0)) name rel = Inl (e, f)"
  have step: "(name, e) \<in> set (error_lines (main_loop scrape (cats @ [c]) d0)) \<longleftrightarrow>
      (name, e) \<in> set (error_lines ?d) \<or> ?new"
    unfolding c main_loop_snoc after_category_errors
    by (cases "scrape (disk ?d) n r") auto
  have split: "(\<exists>pre rel post f. cats @ [c] = pre @ (name, rel) # post
           \<and> scrape (disk (main_loop scrape pre d0)) name rel = Inl (e, f)) \<longleftrightarrow> ?old \<or> ?new"
  proof
    assume "\<exists>pre rel post f. cats @ [c] = pre @ (name, rel) # post
           \<and> scrape (disk (main_loop scrape pre d0)) name rel = Inl (e, f)"
    then obtain pre rel post f where eq: "cats @ [c] = pre @ (name, rel) # post"
      and s: "scrape (disk (main_loop scrape pre d0)) name rel = Inl (e, f)"
      by blast
    from eq [unfolded snoc_eq_split]
    show "?old \<or> ?new"
    proof
      assume "post = [] \<and> cats = pre \<and> c = (name, rel)"
      then show ?thesis using s c by auto
    next
      assume "\<exists>zs'. post = zs' @ [c] \<and> cats = pre @ (name, rel) # zs'"
      then show ?thesis using s by blast
    qed
  next
    assume "?old \<or> ?new"
    then show "\<exists>pre rel post f. cats @ [c] = pre @ (name, rel) # post
           \<and> scrape (disk (main_loop scrape pre d0)) name rel = Inl (e, f)"
    proof
      assume ?old
      then obtain pre rel post f where "cats = pre @ (name, rel) # post"
        and s: "scrape (disk (main_loop scrape pre d0)) name rel = Inl (e, f)"
        by blast
      then have "cats @ [c] = pre @ (name, rel) # (post @ [c])" by simp
      then show ?thesis using s by blast
    next
      assume ?new
      then obtain f where "n = name" and s: "scrape (disk ?d) name r = Inl (e, f)" by blast
      then have "cats @ [c] = cats @ (name, r) # []" using c by simp
      then show ?thesis using s by blast
    qed
  qed
  show ?case unfolding step split snoc.IH by blast
qed

lemma main_loop_logs_failure:
  assumes "(name, rel) \<in> set cats" and "\<forall>f. isl (scrape f name rel)"
  shows "name \<in> fst ` set (error_lines (main_loop scrape cats d))"
proof -
  from assms(1) obtain pre post where s: "cats = pre @ (name, rel) # post"
    by (auto dest: split_list)
  from assms(2) have "isl (scrape (disk (main_loop scrape pre d)) name rel)" by blast
  then obtain e f where "scrape (disk (main_loop scrape pre d)) name rel = Inl (e, f)"
    by (cases "scrape (disk (main_loop scrape pre d)) name rel") auto
  with s have "(name, e) \<in> set (error_lines (main_loop scrape cats d))"
    unfolding main_loop_errors_iff by blast
  then show ?thesis by force
qed

text \<open>The driver, for any orchestrator: the empty table, the table with one more
  category, and the error log.\<close>

lemma main_driver_empty:
  "ensure_dir W OUTPUT_DIR = None \<Longrightarrow>
     main_driver W scrape [] fs0 = Inr \<lparr>disk = fs0, attempted = [], error_lines = []\<rparr>"
  by (simp add: main_driver_def)

lemma main_driver_total:
  "ensure_dir W OUTPUT_DIR = None \<Longrightarrow>
     \<exists>d. main_driver W scrape cats fs0 = Inr d \<and> attempted d = map fst cats"
  by (simp add: main_driver_def main_loop_attempted)

lemma main_driver_snoc:
  assumes "main_driver W scrape cats fs0 = Inr d1"
  shows "main_driver W scrape (cats @ [(name, rel)]) fs0 =
     Inr (after_category d1 name (scrape (disk d1) name rel))"
  using assms by (auto simp: main_driver_def main_loop_snoc split: option.splits)

lemma main_driver_errors_iff:
  assumes "main_driver W scrape cats fs0 = Inr d"
  shows "(name, e) \<in> set (error_lines d) \<longleftrightarrow>
     (\<exists>pre rel post d1 f. cats = pre @ (name, rel) # post
        \<and> main_driver W scrape pre fs0 = Inr d1 \<and> scrape (disk d1) name rel = Inl (e, f))"
proof -
  let ?d0 = "\<lparr>disk = fs0, attempted = [], error_lines = []\<rparr>"
  from assms have ok: "ensure_dir W OUTPUT_DIR = None" and d: "d = main_loop scrape cats ?d0"
    by (auto simp: main_driver_def split: option.splits)
  have pre: "main_driver W scrape pre fs0 = Inr d1 \<longleftrightarrow> d1 = main_loop scrape pre ?d0" for pre d1
    using ok by (auto simp: main_driver_def)
  show ?thesis
    unfolding d pre main_loop_errors_iff [of name e scrape cats ?d0] by auto
qed

lemma main_driver_logs_failure:
  assumes "main_driver W scrape cats fs0 = Inr d" and "(name, rel) \<in> set cats"
    and "\<forall>f. isl (scrape f name rel)"
  shows "name \<in> fst ` set (error_lines d)"
  using assms(1)
    main_loop_logs_failure [of name rel cats scrape
      "\<lparr>disk = fs0, attempted = [], error_lines = []\<rparr>", OF assms(2,3)]
  by (auto simp: main_driver_def split: option.splits)

lemma listing_abort:
  assumes "toAbs E (Some rel) = Inr url"
    and "\<forall>k. 1 \<le> k \<and> k \<le> MAX_RETRIES \<longrightarrow> isl (page_get W url k)"
  shows "isl (scrapeCategory E W S f name rel)"
proof -
  have "isl (fst (fetchWithRetry (page_client W) url () 1))"
    by (rule fetch_all_failed) (simp add: page_client_def assms(2))
  then show ?thesis
    using assms(1) unfolding scrapeCategory_def Let_def
    by (auto simp: bindE_def at_disk_def isl_def split: option.splits)
qed

lemma listing_abort_p1:
  assumes "toAbs_p1 E (Some rel) = Inr url"
    and "\<forall>k. 1 \<le> k \<and> k \<le> MAX_RETRIES \<longrightarrow> isl (page_get W url k)"
  shows "isl (scrapeCategory_p1 E W S f name rel)"
proof -
  have "isl (fst (fetchWithRetry (page_client W) url () 1))"
    by (rule fetch_all_failed) (simp add: page_client_def assms(2))
  then show ?thesis
    using assms(1) unfolding scrapeCategory_p1_def Let_def
    by (auto simp: bindE_def at_disk_def isl_def split: option.splits)
qed

lemma main_driver_step:
  assumes "main_driver W scrape cats fs0 = Inr d1"
  shows "scrape (disk d1) name rel = Inl (e, f) \<Longrightarrow>
      main_driver W scrape (cats @ [(name, rel)]) fs0 =
        Inr (d1\<lparr>disk := f, attempted := attempted d1 @ [name],
                error_lines := error_lines d1 @ [(name, e)]\<rparr>)"
    and "scrape (disk d1) name rel = Inr r \<Longrightarrow>
      main_driver W scrape (cats @ [(name, rel)]) fs0 =
        Inr (d1\<lparr>disk := files_after r, attempted := attempted d1 @ [name]\<rparr>)"
  using main_driver_snoc [OF assms, of name rel] by (simp_all add: after_category_def)

lemma listing_abort_value:
  assumes "ensure_dir W (path_join E OUTPUT_DIR (safeFileName E name)) = None"
    and "toAbs E (Some rel) = Inr url"
    and "fst (fetchWithRetry (page_client W) url () 1) = Inl e"
  shows "scrapeCategory E W S f name rel = Inl (e, f)"
  using assms unfolding scrapeCategory_def Let_def by (simp add: bindE_def at_disk_def)

lemma listing_abort_value_p1:
  assumes "ensure_dir W (path_join E OUTPUT_DIR (safeFileName E name)) = None"
    and "toAbs_p1 E (Some rel) = Inr url"
    and "fst (fetchWithRetry (page_client W) url () 1) = Inl e"
  shows "scrapeCategory_p1 E W S f name rel = Inl (e, f)"
  using assms unfolding scrapeCategory_p1_def Let_def by (simp add: bindE_def at_disk_def)

subsection \<open>File names\<close>


















subsection \<open>The sample shop, evaluated\<close>

lemma shop_folder:
  "path_join shop_env OUTPUT_DIR (safeFileName shop_env ''Cat A'') = ''botech_images/Cat_A''"
  by code_simp

lemma shop_listing_url:
  "toAbs shop_env (Some ''prod/cat'') = Inr (Some ''https://www.botech.ma/prod/cat'')"
  "toAbs_p1 shop_env (Some ''prod/cat'') = Inr (Some ''https://www.botech.ma/prod/cat'')"
  by code_simp+

lemma shop_listing_fetch:
  "fst (fetchWithRetry (page_client shop_world) (Some ''https://www.botech.ma/prod/cat'') () 1)
     = Inr \<lparr>data = ''LISTING''\<rparr>"
  unfolding fetchWithRetry_unrolled
  by (simp add: page_client_def shop_world_def shop_page_def)

lemma shop_thumbs:
  "extractCategoryImages shop_env ''LISTING'' = Inr [''https://www.botech.ma/images/produits/a.jpg'']"
  "getCategoryPageImageUrls_p1 shop_env ''LISTING'' = Inr [''https://www.botech.ma/images/produits/a.jpg'']"
  by code_simp+

lemma shop_links:
  "extractProductLinks shop_env ''LISTING'' =
     Inr [Some ''https://www.botech.ma/details/p1'', Some ''https://www.botech.ma/details/p2'',
          Some ''https://www.botech.ma/details/p3'']"
  "getProductLinksFromCategory_p1 shop_env ''LISTING'' =
     Inr [Some ''https://www.botech.ma/details/p1'', Some ''https://www.botech.ma/details/p2'',
          Some ''https://www.botech.ma/details/p3'']"
  by code_simp+


lemma shop_pages:
  "map (fetch_product shop_world)
     [Some ''https://www.botech.ma/details/p1'', Some ''https://www.botech.ma/details/p2'',
      Some ''https://www.botech.ma/details/p3''] = [''PRODUCT 1'', [], ''PRODUCT 3'']"
  "map (fetch_product_p1 shop_world)
     [Some ''https://www.botech.ma/details/p1'', Some ''https://www.botech.ma/details/p2'',
      Some ''https://www.botech.ma/details/p3''] =
     [(Some ''https://www.botech.ma/details/p1'', ''PRODUCT 1''),
      (Some ''https://www.botech.ma/details/p2'', []),
      (Some ''https://www.botech.ma/details/p3'', ''PRODUCT 3'')]"
  unfolding fetch_product_def fetch_product_p1_def list.map fetchWithRetry_unrolled
  by (simp_all add: page_client_def shop_world_def shop_page_def)

lemma shop_final:
  "final_images shop_env [''https://www.botech.ma/images/produits/a.jpg'']
     [''PRODUCT 1'', [], ''PRODUCT 3''] =
   Inr [''https://www.botech.ma/images/produits/a.jpg'',
        ''https://www.botech.ma/images/produits/b.jpg'',
        ''https://www.botech.ma/images/produits/c.png'']"
  "final_images_p1 shop_env [''https://www.botech.ma/images/produits/a.jpg'']
     [(Some ''https://www.botech.ma/details/p1'', ''PRODUCT 1''),
      (Some ''https://www.botech.ma/details/p2'', []),
      (Some ''https://www.botech.ma/details/p3'', ''PRODUCT 3'')] =
   Inr [''https://www.botech.ma/images/produits/a.jpg'',
        ''https://www.botech.ma/images/produits/b.jpg'',
        ''https://www.botech.ma/images/produits/c.png'']"
  by code_simp+

lemma shop_targets:
  "name_targets shop_env ''Cat A'' ''botech_images/Cat_A'' 1
     [''https://www.botech.ma/images/produits/a.jpg'',
      ''https://www.botech.ma/images/produits/b.jpg'',
      ''https://www.botech.ma/images/produits/c.png''] =
   [(''https://www.botech.ma/images/produits/a.jpg'', ''botech_images/Cat_A/a.jpg''),
    (''https://www.botech.ma/images/produits/b.jpg'', ''botech_images/Cat_A/b.jpg''),
    (''https://www.botech.ma/images/produits/c.png'', ''botech_images/Cat_A/c.png'')]"
  by code_simp

lemma shop_run:
  "\<exists>run. scrapeCategory shop_env shop_world S fs0 ''Cat A'' ''prod/cat'' = Inr run
     \<and> product_links run =
         [Some ''https://www.botech.ma/details/p1'', Some ''https://www.botech.ma/details/p2'',
          Some ''https://www.botech.ma/details/p3'']
     \<and> product_pages run = [''PRODUCT 1'', [], ''PRODUCT 3'']
     \<and> all_images run =
         [''https://www.botech.ma/images/produits/a.jpg'',
          ''https://www.botech.ma/images/produits/b.jpg'',
          ''https://www.botech.ma/images/produits/c.png'']
     \<and> targets_of run =
         [(''https://www.botech.ma/images/produits/a.jpg'', ''botech_images/Cat_A/a.jpg''),
          (''https://www.botech.ma/images/produits/b.jpg'', ''botech_images/Cat_A/b.jpg''),
          (''https://www.botech.ma/images/produits/c.png'', ''botech_images/Cat_A/c.png'')]"
proof -
  have e: "ensure_dir shop_world (path_join shop_env OUTPUT_DIR (safeFileName shop_env ''Cat A'')) = None"
    by (simp add: shop_world_def)
  have t: "extractCategoryImages shop_env (data \<lparr>data = ''LISTING''\<rparr>)
      = Inr [''https://www.botech.ma/images/produits/a.jpg'']"
    by (simp add: shop_thumbs)
  have l: "extractProductLinks shop_env (data \<lparr>data = ''LISTING''\<rparr>) =
     Inr [Some ''https://www.botech.ma/details/p1'', Some ''https://www.botech.ma/details/p2'',
          Some ''https://www.botech.ma/details/p3'']"
    by (simp add: shop_links)
  have f: "final_images shop_env [''https://www.botech.ma/images/produits/a.jpg'']
      (map (fetch_product shop_world)
        [Some ''https://www.botech.ma/details/p1'', Some ''https://www.botech.ma/details/p2'',
         Some ''https://www.botech.ma/details/p3'']) =
     Inr [''https://www.botech.ma/images/produits/a.jpg'',
        ''https://www.botech.ma/images/produits/b.jpg'',
        ''https://www.botech.ma/images/produits/c.png'']"
    unfolding shop_pages by (rule shop_final)
  have q: "\<forall>d k. ensure_dest_dir shop_world d k = None" by (simp add: shop_world_def)
  show ?thesis
    using scrapeCategory_InrI [OF e shop_listing_url(1) shop_listing_fetch t l f q, of S fs0]
    unfolding shop_folder shop_targets shop_pages by blast
qed

lemma shop_run_p1:
  "\<exists>run. scrapeCategory_p1 shop_env shop_world S fs0 ''Cat A'' ''prod/cat'' = Inr run
     \<and> product_links run =
         [Some ''https://www.botech.ma/details/p1'', Some ''https://www.botech.ma/details/p2'',
          Some ''https://www.botech.ma/details/p3'']
     \<and> product_pages run = [''PRODUCT 1'', [], ''PRODUCT 3'']
     \<and> all_images run =
         [''https://www.botech.ma/images/produits/a.jpg'',
          ''https://www.botech.ma/images/produits/b.jpg'',
          ''https://www.botech.ma/images/produits/c.png'']
     \<and> targets_of run =
         [(''https://www.botech.ma/images/produits/a.jpg'', ''botech_images/Cat_A/a.jpg''),
          (''https://www.botech.ma/images/produits/b.jpg'', ''botech_images/Cat_A/b.jpg''),
          (''https://www.botech.ma/images/produits/c.png'', ''botech_images/Cat_A/c.png'')]"
proof -
  have e: "ensure_dir shop_world (path_join shop_env OUTPUT_DIR (safeFileName shop_env ''Cat A'')) = None"
    by (simp add: shop_world_def)
  have t: "getCategoryPageImageUrls_p1 shop_env (data \<lparr>data = ''LISTING''\<rparr>)
      = Inr [''https://www.botech.ma/images/produits/a.jpg'']"
    by (simp add: shop_thumbs)
  have l: "getProductLinksFromCategory_p1 shop_env (data \<lparr>data = ''LISTING''\<rparr>) =
     Inr [Some ''https://www.botech.ma/details/p1'', Some ''https://www.botech.ma/details/p2'',
          Some ''https://www.botech.ma/details/p3'']"
    by (simp add: shop_links)
  have f: "final_images_p1 shop_env [''https://www.botech.ma/images/produits/a.jpg'']
      (map (fetch_product_p1 shop_world)
        [Some ''https://www.botech.ma/details/p1'', Some ''https://www.botech.ma/details/p2'',
         Some ''https://www.botech.ma/details/p3'']) =
     Inr [''https://www.botech.ma/images/produits/a.jpg'',
        ''https://www.botech.ma/images/produits/b.jpg'',
        ''https://www.botech.ma/images/produits/c.png'']"
    unfolding shop_pages by (rule shop_final)
  have q: "\<forall>d k. ensure_dest_dir shop_world d k = None" by (simp add: shop_world_def)
  show ?thesis
    using scrapeCategory_p1_InrI [OF e shop_listing_url(2) shop_listing_fetch t l f q, of S fs0]
    unfolding shop_folder shop_targets shop_pages by blast
qed

lemma shop_disk_exists:
  "pathExists shop_disk ''botech_images/Cat_A/a.jpg''"
  "pathExists shop_disk ''botech_images/Cat_A/b.jpg''"
  "pathExists shop_disk ''botech_images/Cat_A/c.png''"
  by (simp_all add: pathExists_def shop_disk_def)

lemma shop_p2_fails:
  "\<forall>k. 1 \<le> k \<and> k \<le> MAX_RETRIES \<longrightarrow>
     isl (page_get shop_world (Some ''https://www.botech.ma/details/p2'') k)"
  by (simp add: shop_world_def shop_page_def)

lemma shop_product_images:
  "extractProductImages shop_env ''PRODUCT 3'' = Inr [''https://www.botech.ma/images/produits/c.png'']"
  "getProductImages_p1 shop_env ''PRODUCT 3'' = Inr [''https://www.botech.ma/images/produits/c.png'']"
  by code_simp+

lemma shop_p3: "fetch_product shop_world (Some ''https://www.botech.ma/details/p3'') = ''PRODUCT 3''"
  using fetch_product_first [of shop_world "Some ''https://www.botech.ma/details/p3''"
      "\<lparr>data = ''PRODUCT 3''\<rparr>"]
  by (simp add: shop_world_def shop_page_def)

lemma shop_broken_url:
  "toAbs shop_env (Some ''prod/none'') = Inr (Some ''https://www.botech.ma/prod/none'')"
  "toAbs_p1 shop_env (Some ''prod/none'') = Inr (Some ''https://www.botech.ma/prod/none'')"
  by code_simp+

lemma shop_broken_fails:
  "\<forall>k. 1 \<le> k \<and> k \<le> MAX_RETRIES \<longrightarrow>
     isl (page_get shop_world (Some ''https://www.botech.ma/prod/none'') k)"
  by (simp add: shop_world_def shop_page_def)

lemma shop_broken_fetch:
  "fst (fetchWithRetry (page_client shop_world) (Some ''https://www.botech.ma/prod/none'') () 1)
     = Inl (TransportError ''503'')"
  unfolding fetchWithRetry_unrolled
  by (simp add: page_client_def shop_world_def shop_page_def)

lemma shop_broken:
  "scrapeCategory shop_env shop_world S f ''Broken'' ''prod/none'' = Inl (TransportError ''503'', f)"
  "scrapeCategory_p1 shop_env shop_world S f ''Broken'' ''prod/none'' = Inl (TransportError ''503'', f)"
proof -
  have e: "ensure_dir shop_world (path_join shop_env OUTPUT_DIR (safeFileName shop_env ''Broken'')) = None"
    by (simp add: shop_world_def)
  show "scrapeCategory shop_env shop_world S f ''Broken'' ''prod/none'' = Inl (TransportError ''503'', f)"
    by (rule listing_abort_value [OF e shop_broken_url(1) shop_broken_fetch])
  show "scrapeCategory_p1 shop_env shop_world S f ''Broken'' ''prod/none'' = Inl (TransportError ''503'', f)"
    by (rule listing_abort_value_p1 [OF e shop_broken_url(2) shop_broken_fetch])
qed

lemma shop_download:
  "(case download_phase DOWNLOAD_CONCURRENCY shop_world
           [(''https://www.botech.ma/images/produits/a.jpg'', ''botech_images/Cat_A/a.jpg''),
            (''https://www.botech.ma/images/produits/b.jpg'', ''botech_images/Cat_A/b.jpg''),
            (''https://www.botech.ma/images/produits/c.png'', ''botech_images/Cat_A/c.png'')]
           (download_sched shop_schedules) Map.empty of
      Inl x \<Rightarrow> False
    | Inr (f, evs) \<Rightarrow>
        pathExists f ''botech_images/Cat_A/a.jpg'' \<and> pathExists f ''botech_images/Cat_A/b.jpg''
        \<and> pathExists f ''botech_images/Cat_A/c.png''
        \<and> evs = [Fetch ''https://www.botech.ma/images/produits/b.jpg'' 1,
                  Write ''botech_images/Cat_A/b.jpg'',
                  Fetch ''https://www.botech.ma/images/produits/c.png'' 1,
                  Write ''botech_images/Cat_A/c.png'',
                  Fetch ''https://www.botech.ma/images/produits/a.jpg'' 1,
                  Write ''botech_images/Cat_A/a.jpg''])"
  by code_simp

lemma shop_run_files:
  assumes "download_phase DOWNLOAD_CONCURRENCY shop_world (targets_of r)
             (download_sched shop_schedules) Map.empty = Inr (files_after r, download_log r)"
    and "targets_of r =
         [(''https://www.botech.ma/images/produits/a.jpg'', ''botech_images/Cat_A/a.jpg''),
          (''https://www.botech.ma/images/produits/b.jpg'', ''botech_images/Cat_A/b.jpg''),
          (''https://www.botech.ma/images/produits/c.png'', ''botech_images/Cat_A/c.png'')]"
  shows "pathExists (files_after r) ''botech_images/Cat_A/a.jpg''
     \<and> pathExists (files_after r) ''botech_images/Cat_A/b.jpg''
     \<and> pathExists (files_after r) ''botech_images/Cat_A/c.png''
     \<and> fetch_count (download_log r) = 3"
  using shop_download assms by (simp add: fetch_count_def)


section \<open>The claims\<close>

subsection \<open>C5: the retry policy of the fetcher\<close>

text \<open>
  Claim C5. A call \<open>fetchWithRetry(url, opts)\<close> makes at most \<open>MAX_RETRIES = 3\<close> requests.
  Its trace is: request \<open>k\<close>, then a sleep of \<open>RETRY_DELAY_MS * k\<close>, for every attempt \<open>k\<close>
  before the last one made, then the last request. Every attempt before the last one
  failed, so nothing follows a successful attempt; the result is the outcome of the last
  attempt, and it is a failure only when all three attempts have been made.
\<close>

theorem fetchWithRetry_policy:
  assumes run: "fetchWithRetry get url opts 1 = (res, evs)"
  shows "attempts evs \<le> MAX_RETRIES \<and> MAX_RETRIES = 3
    \<and> evs = concat (map (\<lambda>k. [Get url k, Sleep (RETRY_DELAY_MS * k)]) [1..<attempts evs])
                 @ [Get url (attempts evs)]
    \<and> sleeps evs = map (\<lambda>k. RETRY_DELAY_MS * k) [1..<attempts evs]
    \<and> res = get url opts (attempts evs)
    \<and> (\<forall>k. 1 \<le> k \<and> k < attempts evs \<longrightarrow> isl (get url opts k))
    \<and> (isl res \<longrightarrow> attempts evs = MAX_RETRIES)"
proof -
  consider (first) r where "get url opts 1 = Inr r" "res = Inr r" "evs = [Get url 1]"
    | (second) e r where "get url opts 1 = Inl e" "get url opts 2 = Inr r" "res = Inr r"
        "evs = [Get url 1, Sleep 1200, Get url 2]"
    | (third) e e' where "get url opts 1 = Inl e" "get url opts 2 = Inl e'"
        "res = get url opts 3" "evs = [Get url 1, Sleep 1200, Get url 2, Sleep 2400, Get url 3]"
    using run unfolding fetchWithRetry_unrolled by (auto split: sum.splits)
  then show ?thesis
  proof cases
    case first
    then show ?thesis
      by (simp add: attempts_def MAX_RETRIES_def RETRY_DELAY_MS_def)
  next
    case second
    have a: "attempts evs = 2" using second by (simp add: attempts_def)
    have "isl (get url opts k)" if "1 \<le> k \<and> k < 2" for k
    proof -
      from that have "k = 1" by arith
      then show ?thesis using second by simp
    qed
    then show ?thesis
      unfolding a upt_small using second
      by (simp add: MAX_RETRIES_def RETRY_DELAY_MS_def)
  next
    case third
    have a: "attempts evs = 3" using third by (simp add: attempts_def)
    have "isl (get url opts k)" if "1 \<le> k \<and> k < 3" for k
    proof -
      from that have "k = 1 \<or> k = 2" by arith
      then show ?thesis using third by auto
    qed
    then show ?thesis
      unfolding a upt_small using third
      by (simp add: MAX_RETRIES_def RETRY_DELAY_MS_def)
  qed
qed

text \<open>The policy at a transport that fails twice: three requests, sleeps of 1200 and
  2400 ms, and the third response returned.\<close>

theorem fetchWithRetry_policy_witness:
  "fetchWithRetry flaky_get ''prod/x'' () 1 =
     (Inr \<lparr>data = ''<html></html>''\<rparr>,
      [Get ''prod/x'' 1, Sleep 1200, Get ''prod/x'' 2, Sleep 2400, Get ''prod/x'' 3])
   \<and> attempts [Get ''prod/x'' 1, Sleep 1200, Get ''prod/x'' 2, Sleep 2400, Get ''prod/x'' 3] = 3
   \<and> sleeps [Get ''prod/x'' 1, Sleep 1200, Get ''prod/x'' 2, Sleep 2400, Get ''prod/x'' 3]
       = map (\<lambda>k. RETRY_DELAY_MS * k) [1..<3]
   \<and> isl (flaky_get ''prod/x'' () 1) \<and> isl (flaky_get ''prod/x'' () 2)"
proof -
  have run: "fetchWithRetry flaky_get ''prod/x'' () 1 =
     (Inr \<lparr>data = ''<html></html>''\<rparr>,
      [Get ''prod/x'' 1, Sleep 1200, Get ''prod/x'' 2, Sleep 2400, Get ''prod/x'' 3])"
    unfolding fetchWithRetry_unrolled by (simp add: flaky_get_def)
  have a: "attempts [Get ''prod/x'' 1, Sleep 1200, Get ''prod/x'' 2, Sleep 2400, Get ''prod/x'' 3] = 3"
    by (simp add: attempts_def)
  show ?thesis
    using fetchWithRetry_policy [OF run] run unfolding a
    by simp
qed

subsection \<open>C3: the cases of the URL normalizer\<close>

text \<open>
  The claim as stated fails at the input \<open>HTTP://x/a.png\<close>, whichever way "carrying an
  http:// or https:// scheme" is read: \<^verbatim>\<open>src/scrape-botech.js\<close> tests the scheme without
  regard to letter case and returns the input unchanged (so it is not treated as a path
  under the origin), while \<^verbatim>\<open>src/unnamed/part_001\<close> tests the lower-case prefix only and
  appends the input to the origin (so it is not returned unchanged).
\<close>

theorem toAbs_cases_counterexample:
  "toAbs sample_env (Some ''HTTP://x/a.png'') = Inr (Some ''HTTP://x/a.png'')
   \<and> \<not> prefix BASE_URL ''HTTP://x/a.png''
   \<and> toAbs_p1 sample_env (Some ''HTTP://x/a.png'') \<noteq> Inr (Some ''HTTP://x/a.png'')"
  by (simp add: toAbs_def toAbs_p1_def has_scheme_ci_def toLowerCase_def lower_char_def
        startsWith_def BASE_URL_def)

text \<open>
  Claim C3, amended. Both copies return \<open>null\<close> on \<open>null\<close> and on the empty string, and
  return an input that starts with lower-case \<open>http://\<close> or \<open>https://\<close> unchanged. An
  input whose scheme is written in another letter case is returned unchanged by
  \<open>scrape-botech.js\<close> and appended to the origin by \<open>part_001\<close>. An input that begins with
  \<open>/\<close> is resolved against the origin by the URL constructor: \<open>part_001\<close> passes the input
  as it is, \<open>scrape-botech.js\<close> passes it without the leading slash. For any other input
  a leading \<open>./\<close> is removed; then \<open>scrape-botech.js\<close> resolves the rest against the origin
  with the URL constructor, and \<open>part_001\<close> appends it to the origin.
\<close>

theorem toAbs_cases:
  "toAbs E None = Inr None \<and> toAbs E (Some []) = Inr None
   \<and> toAbs_p1 E None = Inr None \<and> toAbs_p1 E (Some []) = Inr None
   \<and> (prefix ''http://'' u \<or> prefix ''https://'' u \<longrightarrow>
        toAbs E (Some u) = Inr (Some u) \<and> toAbs_p1 E (Some u) = Inr (Some u))
   \<and> (has_scheme_ci u \<and> \<not> prefix ''http://'' u \<and> \<not> prefix ''https://'' u \<longrightarrow>
        toAbs E (Some u) = Inr (Some u) \<and> toAbs_p1 E (Some u) = Inr (Some (BASE_URL @ u)))
   \<and> toAbs E (Some (CHR ''/'' # r)) = resolve E r
   \<and> toAbs_p1 E (Some (CHR ''/'' # r)) = resolve E (CHR ''/'' # r)
   \<and> (u \<noteq> [] \<and> \<not> has_scheme_ci u \<and> \<not> prefix ''/'' u \<longrightarrow>
        toAbs E (Some u) = resolve E (strip_dot_slash u)
        \<and> toAbs_p1 E (Some u) = Inr (Some (BASE_URL @ strip_dot_slash u)))"
proof (intro conjI impI)
  show "toAbs E None = Inr None" "toAbs E (Some []) = Inr None"
    "toAbs_p1 E None = Inr None" "toAbs_p1 E (Some []) = Inr None"
    by (rule toAbs_nulls)+
  show "toAbs E (Some u) = Inr (Some u)" "toAbs_p1 E (Some u) = Inr (Some u)"
    if "prefix ''http://'' u \<or> prefix ''https://'' u"
    by (rule toAbs_lower [OF that])+
  show "toAbs E (Some u) = Inr (Some u)" "toAbs_p1 E (Some u) = Inr (Some (BASE_URL @ u))"
    if "has_scheme_ci u \<and> \<not> prefix ''http://'' u \<and> \<not> prefix ''https://'' u"
    using that toAbs_upper [of u E] by simp_all
  show "toAbs E (Some (CHR ''/'' # r)) = resolve E r"
    "toAbs_p1 E (Some (CHR ''/'' # r)) = resolve E (CHR ''/'' # r)"
    by (rule toAbs_slash)+
  show "toAbs E (Some u) = resolve E (strip_dot_slash u)"
    "toAbs_p1 E (Some u) = Inr (Some (BASE_URL @ strip_dot_slash u))"
    if "u \<noteq> [] \<and> \<not> has_scheme_ci u \<and> \<not> prefix ''/'' u"
    using that toAbs_other [of u E] by simp_all
qed

theorem toAbs_cases_witness:
  "prefix ''https://'' ''https://cdn.x/a.png''
   \<and> toAbs sample_env (Some ''https://cdn.x/a.png'') = Inr (Some ''https://cdn.x/a.png'')
   \<and> toAbs_p1 sample_env (Some ''https://cdn.x/a.png'') = Inr (Some ''https://cdn.x/a.png'')
   \<and> has_scheme_ci ''HTTP://x/a.png'' \<and> \<not> prefix ''http://'' ''HTTP://x/a.png''
   \<and> \<not> prefix ''https://'' ''HTTP://x/a.png''
   \<and> toAbs_p1 sample_env (Some ''HTTP://x/a.png'') = Inr (Some (BASE_URL @ ''HTTP://x/a.png''))
   \<and> ''./img/a.png'' \<noteq> [] \<and> \<not> has_scheme_ci ''./img/a.png'' \<and> \<not> prefix ''/'' ''./img/a.png''
   \<and> toAbs sample_env (Some ''./img/a.png'') = resolve sample_env ''img/a.png''
   \<and> toAbs_p1 sample_env (Some ''./img/a.png'') = Inr (Some (BASE_URL @ ''img/a.png''))"
proof -
  have h1: "prefix ''https://'' ''https://cdn.x/a.png''" by simp
  have h2: "has_scheme_ci ''HTTP://x/a.png'' \<and> \<not> prefix ''http://'' ''HTTP://x/a.png''
     \<and> \<not> prefix ''https://'' ''HTTP://x/a.png''"
    by (simp add: has_scheme_ci_def toLowerCase_def lower_char_def)
  have h3: "''./img/a.png'' \<noteq> [] \<and> \<not> has_scheme_ci ''./img/a.png'' \<and> \<not> prefix ''/'' ''./img/a.png''"
    by (simp add: has_scheme_ci_def toLowerCase_def lower_char_def)
  show ?thesis
    using h1 h2 h3
      toAbs_cases [of sample_env "''https://cdn.x/a.png''" "[]"]
      toAbs_cases [of sample_env "''HTTP://x/a.png''" "[]"]
      toAbs_cases [of sample_env "''./img/a.png''" "[]"]
    by simp
qed

subsection \<open>C9: the pipeline returns the results in the order of the items\<close>

text \<open>
  Claim C9. For every list of items, every limit of at least 1, every worker and every
  order in which the tasks start and complete, the pipeline returns a list as long as the
  list of items, whose \<open>i\<close>-th element is the worker's result for the \<open>i\<close>-th item.
\<close>

theorem runBounded_index_aligned:
  "1 \<le> limit \<Longrightarrow>
     \<exists>rs. runBounded limit worker items sched = Inr rs \<and> length rs = length items
       \<and> (\<forall>i < length items. rs ! i = worker (items ! i))"
  by (simp add: runBounded_map)

text \<open>Three items, limit 2, the second task completing first and the first one last.\<close>

theorem runBounded_index_aligned_witness:
  "(1::nat) \<le> 2
   \<and> (\<exists>rs. runBounded 2 (\<lambda>x::nat. 10 * x) [1, 2, 3]
              [Start, Start, Complete 1, Start, Complete 2, Complete 0] = Inr rs
        \<and> length rs = 3 \<and> rs ! 0 = 10 \<and> rs ! 1 = 20 \<and> rs ! 2 = 30)"
proof -
  have l: "(1::nat) \<le> 2" by simp
  from runBounded_index_aligned [OF l, of "\<lambda>x::nat. 10 * x" "[1, 2, 3]"
      "[Start, Start, Complete 1, Start, Complete 2, Complete 0]"]
  obtain rs where rs: "runBounded 2 (\<lambda>x::nat. 10 * x) [1, 2, 3]
              [Start, Start, Complete 1, Start, Complete 2, Complete 0] = Inr rs"
    "length rs = length [1::nat, 2, 3]"
    "\<forall>i < length [1::nat, 2, 3]. rs ! i = 10 * ([1, 2, 3] ! i)"
    by blast
  have "rs ! 0 = 10" "rs ! 1 = 20" "rs ! 2 = 30"
    using rs(3) by (simp_all add: nth_Cons')
  then show ?thesis using l rs(1,2) by simp
qed


subsection \<open>C4: what the URL normalizer does with input that cannot be parsed\<close>

text \<open>
  The claim as stated fails: neither copy catches the TypeError of the URL constructor.
  \<^verbatim>\<open>src/scrape-botech.js\<close> raises on \<open>ws://[\<close> and \<^verbatim>\<open>src/unnamed/part_001\<close> on \<open>//\<close>,
  two inputs that the constructor rejects.
\<close>

theorem toAbs_raises_iff_counterexample:
  "toAbs sample_env (Some ''ws://['') = Inl TypeError
   \<and> toAbs_p1 sample_env (Some ''//'') = Inl TypeError"
  by (simp add: toAbs_def toAbs_p1_def has_scheme_ci_def toLowerCase_def lower_char_def
        startsWith_def resolve_def sample_env_def sample_href_def)

text \<open>
  Claim C4, amended. Both copies return \<open>null\<close> exactly on \<open>null\<close> and on the empty
  string. A call raises exactly when the URL constructor rejects the input it is given,
  and then with the exception of the constructor: in \<open>scrape-botech.js\<close> for a non-empty
  input without a scheme whose rest, after the removal of a leading \<open>./\<close> or \<open>/\<close>, is
  rejected; in \<open>part_001\<close> for an input that begins with \<open>/\<close> and is rejected. In
  every other case the call returns a string.
\<close>

theorem toAbs_raises_iff:
  "(toAbs E url = Inr None \<longleftrightarrow> url = None \<or> url = Some [])
   \<and> (toAbs_p1 E url = Inr None \<longleftrightarrow> url = None \<or> url = Some [])
   \<and> (toAbs E (Some u) = Inl e \<longleftrightarrow>
        u \<noteq> [] \<and> \<not> has_scheme_ci u \<and> url_href E (strip_dot_slash u) BASE_URL = Inl e)
   \<and> (toAbs_p1 E (Some u) = Inl e \<longleftrightarrow> prefix ''/'' u \<and> url_href E u BASE_URL = Inl e)"
proof -
  have a: "toAbs E url = Inr None \<longleftrightarrow> url = None \<or> url = Some []"
    by (cases url) (simp_all add: toAbs_def resolve_not_null)
  have b: "toAbs_p1 E url = Inr None \<longleftrightarrow> url = None \<or> url = Some []"
    by (cases url) (simp_all add: toAbs_p1_def resolve_not_null)
  have c: "toAbs E (Some u) = Inl e \<longleftrightarrow>
        u \<noteq> [] \<and> \<not> has_scheme_ci u \<and> url_href E (strip_dot_slash u) BASE_URL = Inl e"
    by (simp add: toAbs_def resolve_Inl_iff)
  have d: "toAbs_p1 E (Some u) = Inl e \<longleftrightarrow> prefix ''/'' u \<and> url_href E u BASE_URL = Inl e"
  proof (cases "prefix ''/'' u")
    case True
    then obtain r where "u = CHR ''/'' # r" by (auto simp: prefix_def)
    then show ?thesis using toAbs_slash(2) [of E r] by (simp add: resolve_Inl_iff)
  next
    case False
    then show ?thesis by (simp add: toAbs_p1_def startsWith_def)
  qed
  show ?thesis using a b c d by blast
qed

theorem toAbs_raises_iff_witness:
  "''ws://['' \<noteq> [] \<and> \<not> has_scheme_ci ''ws://[''
   \<and> url_href sample_env (strip_dot_slash ''ws://['') BASE_URL = Inl TypeError
   \<and> toAbs sample_env (Some ''ws://['') = Inl TypeError
   \<and> toAbs sample_env (Some ''img/a.png'') \<noteq> Inr None
   \<and> toAbs_p1 sample_env (Some ''img/a.png'') \<noteq> Inl TypeError"
proof -
  have h: "''ws://['' \<noteq> [] \<and> \<not> has_scheme_ci ''ws://[''
     \<and> url_href sample_env (strip_dot_slash ''ws://['') BASE_URL = Inl TypeError"
    by (simp add: has_scheme_ci_def toLowerCase_def lower_char_def sample_env_def sample_href_def)
  show ?thesis
    using h toAbs_raises_iff [of sample_env "Some ''img/a.png''" "''ws://[''" TypeError]
      toAbs_raises_iff [of sample_env "Some ''img/a.png''" "''img/a.png''" TypeError]
    by simp
qed

subsection \<open>C10: the two copies of the URL normalizer\<close>

text \<open>
  The claim as stated fails: on \<open>HTTP://x/a.png\<close> the copy of \<open>scrape-botech.js\<close> returns
  the input and the copy of \<open>part_001\<close> appends it to the origin.
\<close>

theorem toAbs_copies_agree_counterexample:
  "toAbs sample_env (Some ''HTTP://x/a.png'') \<noteq> toAbs_p1 sample_env (Some ''HTTP://x/a.png'')"
  by (simp add: toAbs_def toAbs_p1_def has_scheme_ci_def toLowerCase_def lower_char_def
        startsWith_def BASE_URL_def)

text \<open>
  Claim C10, amended. The two copies return the same on \<open>null\<close>, on the empty string and
  on every input that starts with lower-case \<open>http://\<close> or \<open>https://\<close>. They differ on
  every input that carries the scheme in another letter case. On an input that begins
  with \<open>/\<close> they agree exactly when the URL constructor gives the same for the input
  with and without its leading slash; on any other input they agree exactly when the
  URL constructor resolves the input (without a leading \<open>./\<close>) to the concatenation of
  the origin and the input.
\<close>

theorem toAbs_copies_agree:
  "toAbs E None = toAbs_p1 E None \<and> toAbs E (Some []) = toAbs_p1 E (Some [])
   \<and> (prefix ''http://'' u \<or> prefix ''https://'' u \<longrightarrow> toAbs E (Some u) = toAbs_p1 E (Some u))
   \<and> (has_scheme_ci u \<and> \<not> prefix ''http://'' u \<and> \<not> prefix ''https://'' u \<longrightarrow>
        toAbs E (Some u) \<noteq> toAbs_p1 E (Some u))
   \<and> (toAbs E (Some (CHR ''/'' # r)) = toAbs_p1 E (Some (CHR ''/'' # r)) \<longleftrightarrow>
        url_href E r BASE_URL = url_href E (CHR ''/'' # r) BASE_URL)
   \<and> (u \<noteq> [] \<and> \<not> has_scheme_ci u \<and> \<not> prefix ''/'' u \<longrightarrow>
        (toAbs E (Some u) = toAbs_p1 E (Some u) \<longleftrightarrow>
           url_href E (strip_dot_slash u) BASE_URL = Inr (BASE_URL @ strip_dot_slash u)))"
proof (intro conjI impI)
  show "toAbs E None = toAbs_p1 E None" "toAbs E (Some []) = toAbs_p1 E (Some [])"
    by (simp_all add: toAbs_nulls)
  show "toAbs E (Some u) = toAbs_p1 E (Some u)" if "prefix ''http://'' u \<or> prefix ''https://'' u"
    using toAbs_lower [OF that] by simp
  show "toAbs E (Some u) \<noteq> toAbs_p1 E (Some u)"
    if "has_scheme_ci u \<and> \<not> prefix ''http://'' u \<and> \<not> prefix ''https://'' u"
    using that toAbs_upper [of u E] by (simp add: BASE_URL_def)
  show "toAbs E (Some (CHR ''/'' # r)) = toAbs_p1 E (Some (CHR ''/'' # r)) \<longleftrightarrow>
        url_href E r BASE_URL = url_href E (CHR ''/'' # r) BASE_URL"
    by (simp add: toAbs_slash resolve_eq_iff)
  show "toAbs E (Some u) = toAbs_p1 E (Some u) \<longleftrightarrow>
           url_href E (strip_dot_slash u) BASE_URL = Inr (BASE_URL @ strip_dot_slash u)"
    if "u \<noteq> [] \<and> \<not> has_scheme_ci u \<and> \<not> prefix ''/'' u"
    using that toAbs_other [of u E] by (simp add: resolve_Some_iff)
qed

theorem toAbs_copies_agree_witness:
  "prefix ''https://'' ''https://cdn.x/a.png''
   \<and> toAbs sample_env (Some ''https://cdn.x/a.png'') = toAbs_p1 sample_env (Some ''https://cdn.x/a.png'')
   \<and> has_scheme_ci ''Http://x/a.png'' \<and> \<not> prefix ''http://'' ''Http://x/a.png''
   \<and> \<not> prefix ''https://'' ''Http://x/a.png''
   \<and> toAbs sample_env (Some ''Http://x/a.png'') \<noteq> toAbs_p1 sample_env (Some ''Http://x/a.png'')
   \<and> ''img/a.png'' \<noteq> [] \<and> \<not> has_scheme_ci ''img/a.png'' \<and> \<not> prefix ''/'' ''img/a.png''
   \<and> url_href sample_env (strip_dot_slash ''img/a.png'') BASE_URL
        = Inr (BASE_URL @ strip_dot_slash ''img/a.png'')
   \<and> toAbs sample_env (Some ''img/a.png'') = toAbs_p1 sample_env (Some ''img/a.png'')"
proof -
  have h1: "prefix ''https://'' ''https://cdn.x/a.png''" by simp
  have h2: "has_scheme_ci ''Http://x/a.png'' \<and> \<not> prefix ''http://'' ''Http://x/a.png''
     \<and> \<not> prefix ''https://'' ''Http://x/a.png''"
    by (simp add: has_scheme_ci_def toLowerCase_def lower_char_def)
  have h3: "''img/a.png'' \<noteq> [] \<and> \<not> has_scheme_ci ''img/a.png'' \<and> \<not> prefix ''/'' ''img/a.png''"
    by (simp add: has_scheme_ci_def toLowerCase_def lower_char_def)
  have h4: "url_href sample_env (strip_dot_slash ''img/a.png'') BASE_URL
        = Inr (BASE_URL @ strip_dot_slash ''img/a.png'')"
    by (simp add: sample_env_def sample_href_def)
  show ?thesis
    using h1 h2 h3 h4
      toAbs_copies_agree [of sample_env "''https://cdn.x/a.png''" "[]"]
      toAbs_copies_agree [of sample_env "''Http://x/a.png''" "[]"]
      toAbs_copies_agree [of sample_env "''img/a.png''" "[]"]
    by simp
qed


subsection \<open>C8: the final image set has no duplicates\<close>

text \<open>
  Claim C8. In every category run that reaches the download phase, of either copy, the
  list of images handed to the download phase is duplicate-free: every URL in it occurs
  exactly once, also when it was found both among the thumbnails of the listing and in
  product pages. The download targets are made from exactly this list, in order.
\<close>

theorem final_image_set_distinct:
  "(scrapeCategory E W S fs0 name rel = Inr run \<longrightarrow>
      distinct (all_images run) \<and> map fst (targets_of run) = all_images run
      \<and> (\<forall>u \<in> set (all_images run). count_list (all_images run) u = 1))
   \<and> (scrapeCategory_p1 E W S fs0 name rel = Inr run \<longrightarrow>
      distinct (all_images run) \<and> map fst (targets_of run) = all_images run
      \<and> (\<forall>u \<in> set (all_images run). count_list (all_images run) u = 1))"
proof (intro conjI impI)
  assume "scrapeCategory E W S fs0 name rel = Inr run"
  from scrapeCategory_InrD [OF this] obtain thumbs
    where f: "final_images E thumbs (product_pages run) = Inr (all_images run)"
      and t: "targets_of run =
          name_targets E name (path_join E OUTPUT_DIR (safeFileName E name)) 1 (all_images run)"
    by blast
  show d: "distinct (all_images run)" by (rule final_images_distinct [OF f])
  show "map fst (targets_of run) = all_images run" by (simp add: t name_targets_fst)
  show "\<forall>u \<in> set (all_images run). count_list (all_images run) u = 1"
    using d by (simp add: distinct_count_one)
next
  assume "scrapeCategory_p1 E W S fs0 name rel = Inr run"
  from scrapeCategory_p1_InrD [OF this] obtain thumbs
    where f: "final_images_p1 E thumbs (map (fetch_product_p1 W) (product_links run)) =
          Inr (all_images run)"
      and t: "targets_of run =
          name_targets E name (path_join E OUTPUT_DIR (safeFileName E name)) 1 (all_images run)"
    by blast
  show d: "distinct (all_images run)" by (rule final_images_p1_distinct [OF f])
  show "map fst (targets_of run) = all_images run" by (simp add: t name_targets_fst)
  show "\<forall>u \<in> set (all_images run). count_list (all_images run) u = 1"
    using d by (simp add: distinct_count_one)
qed

text \<open>In the sample shop \<open>a.jpg\<close> is a thumbnail of the listing and appears twice in the
  page of the first product; the final set holds it once.\<close>

theorem final_image_set_distinct_witness:
  "(\<exists>run. scrapeCategory shop_env shop_world shop_schedules Map.empty ''Cat A'' ''prod/cat'' = Inr run
      \<and> all_images run =
         [''https://www.botech.ma/images/produits/a.jpg'',
          ''https://www.botech.ma/images/produits/b.jpg'',
          ''https://www.botech.ma/images/produits/c.png'']
      \<and> distinct (all_images run) \<and> map fst (targets_of run) = all_images run
      \<and> count_list (all_images run) ''https://www.botech.ma/images/produits/a.jpg'' = 1)
   \<and> (\<exists>run. scrapeCategory_p1 shop_env shop_world shop_schedules Map.empty ''Cat A'' ''prod/cat'' = Inr run
      \<and> all_images run =
         [''https://www.botech.ma/images/produits/a.jpg'',
          ''https://www.botech.ma/images/produits/b.jpg'',
          ''https://www.botech.ma/images/produits/c.png'']
      \<and> distinct (all_images run) \<and> map fst (targets_of run) = all_images run
      \<and> count_list (all_images run) ''https://www.botech.ma/images/produits/a.jpg'' = 1)"
proof (rule conjI)
  from shop_run [of shop_schedules Map.empty] obtain run
    where r: "scrapeCategory shop_env shop_world shop_schedules Map.empty ''Cat A'' ''prod/cat'' = Inr run"
      and i: "all_images run =
         [''https://www.botech.ma/images/produits/a.jpg'',
          ''https://www.botech.ma/images/produits/b.jpg'',
          ''https://www.botech.ma/images/produits/c.png'']"
    by blast
  from final_image_set_distinct [of shop_env shop_world shop_schedules Map.empty "''Cat A''" "''prod/cat''" run] r
  have "distinct (all_images run) \<and> map fst (targets_of run) = all_images run
      \<and> (\<forall>u \<in> set (all_images run). count_list (all_images run) u = 1)"
    by blast
  moreover have "''https://www.botech.ma/images/produits/a.jpg'' \<in> set (all_images run)"
    unfolding i by simp
  ultimately show "\<exists>run. scrapeCategory shop_env shop_world shop_schedules Map.empty ''Cat A'' ''prod/cat'' = Inr run
      \<and> all_images run =
         [''https://www.botech.ma/images/produits/a.jpg'',
          ''https://www.botech.ma/images/produits/b.jpg'',
          ''https://www.botech.ma/images/produits/c.png'']
      \<and> distinct (all_images run) \<and> map fst (targets_of run) = all_images run
      \<and> count_list (all_images run) ''https://www.botech.ma/images/produits/a.jpg'' = 1"
    using r i by blast
next
  from shop_run_p1 [of shop_schedules Map.empty] obtain run
    where r: "scrapeCategory_p1 shop_env shop_world shop_schedules Map.empty ''Cat A'' ''prod/cat'' = Inr run"
      and i: "all_images run =
         [''https://www.botech.ma/images/produits/a.jpg'',
          ''https://www.botech.ma/images/produits/b.jpg'',
          ''https://www.botech.ma/images/produits/c.png'']"
    by blast
  from final_image_set_distinct [of shop_env shop_world shop_schedules Map.empty "''Cat A''" "''prod/cat''" run] r
  have "distinct (all_images run) \<and> map fst (targets_of run) = all_images run
      \<and> (\<forall>u \<in> set (all_images run). count_list (all_images run) u = 1)"
    by blast
  moreover have "''https://www.botech.ma/images/produits/a.jpg'' \<in> set (all_images run)"
    unfolding i by simp
  ultimately show "\<exists>run. scrapeCategory_p1 shop_env shop_world shop_schedules Map.empty ''Cat A'' ''prod/cat'' = Inr run
      \<and> all_images run =
         [''https://www.botech.ma/images/produits/a.jpg'',
          ''https://www.botech.ma/images/produits/b.jpg'',
          ''https://www.botech.ma/images/produits/c.png'']
      \<and> distinct (all_images run) \<and> map fst (targets_of run) = all_images run
      \<and> count_list (all_images run) ''https://www.botech.ma/images/produits/a.jpg'' = 1"
    using r i by blast
qed

subsection \<open>C1: a re-run over a complete directory fetches nothing\<close>

text \<open>
  Claim C1. If every destination computed for the images of a download phase exists
  already, the phase makes no request at all, whatever the schedule: its log is empty,
  so the fetch-call counter stays at zero, and the file system is unchanged. This holds
  for the download phase of a category run of either copy, where the destinations are
  computed from the category name and the final image set alone, each task checks its
  destination before it starts a transfer, and a task whose destination exists ends
  there.
\<close>

theorem rerun_fetches_nothing:
  "(1 \<le> n \<and> (\<forall>t \<in> set targets. pathExists fs0 (snd t)) \<longrightarrow>
      download_phase n W targets sched fs0 = Inr (fs0, []))
   \<and> (scrapeCategory E W S fs0 name rel = Inr run
        \<and> (\<forall>t \<in> set (targets_of run). pathExists fs0 (snd t)) \<longrightarrow>
      targets_of run =
        name_targets E name (path_join E OUTPUT_DIR (safeFileName E name)) 1 (all_images run)
      \<and> download_log run = [] \<and> fetch_count (download_log run) = 0 \<and> files_after run = fs0)
   \<and> (scrapeCategory_p1 E W S fs0 name rel = Inr run
        \<and> (\<forall>t \<in> set (targets_of run). pathExists fs0 (snd t)) \<longrightarrow>
      targets_of run =
        name_targets E name (path_join E OUTPUT_DIR (safeFileName E name)) 1 (all_images run)
      \<and> download_log run = [] \<and> fetch_count (download_log run) = 0 \<and> files_after run = fs0)"
proof (intro conjI impI)
  assume "1 \<le> n \<and> (\<forall>t \<in> set targets. pathExists fs0 (snd t))"
  then show "download_phase n W targets sched fs0 = Inr (fs0, [])"
    by (simp add: download_phase_idle)
next
  assume a: "scrapeCategory E W S fs0 name rel = Inr run
        \<and> (\<forall>t \<in> set (targets_of run). pathExists fs0 (snd t))"
  from scrapeCategory_InrD [of E W S fs0 name rel run] a
  have t: "targets_of run =
        name_targets E name (path_join E OUTPUT_DIR (safeFileName E name)) 1 (all_images run)"
    and dl: "download_phase DOWNLOAD_CONCURRENCY W (targets_of run) (download_sched S) fs0 =
          Inr (files_after run, download_log run)"
    by blast+
  have "download_phase DOWNLOAD_CONCURRENCY W (targets_of run) (download_sched S) fs0 = Inr (fs0, [])"
    using a by (intro download_phase_idle) (simp_all add: DOWNLOAD_CONCURRENCY_def)
  with dl have e: "files_after run = fs0" "download_log run = []" by simp_all
  show "targets_of run =
        name_targets E name (path_join E OUTPUT_DIR (safeFileName E name)) 1 (all_images run)"
    by (rule t)
  show "download_log run = []" by (rule e)
  show "fetch_count (download_log run) = 0" by (simp add: e fetch_count_def)
  show "files_after run = fs0" by (rule e)
next
  assume a: "scrapeCategory_p1 E W S fs0 name rel = Inr run
        \<and> (\<forall>t \<in> set (targets_of run). pathExists fs0 (snd t))"
  from scrapeCategory_p1_InrD [of E W S fs0 name rel run] a
  have t: "targets_of run =
        name_targets E name (path_join E OUTPUT_DIR (safeFileName E name)) 1 (all_images run)"
    and dl: "download_phase DOWNLOAD_CONCURRENCY W (targets_of run) (download_sched S) fs0 =
          Inr (files_after run, download_log run)"
    by blast+
  have "download_phase DOWNLOAD_CONCURRENCY W (targets_of run) (download_sched S) fs0 = Inr (fs0, [])"
    using a by (intro download_phase_idle) (simp_all add: DOWNLOAD_CONCURRENCY_def)
  with dl have e: "files_after run = fs0" "download_log run = []" by simp_all
  show "targets_of run =
        name_targets E name (path_join E OUTPUT_DIR (safeFileName E name)) 1 (all_images run)"
    by (rule t)
  show "download_log run = []" by (rule e)
  show "fetch_count (download_log run) = 0" by (simp add: e fetch_count_def)
  show "files_after run = fs0" by (rule e)
qed


text \<open>The sample category over a disk that holds its three files.\<close>

theorem rerun_fetches_nothing_witness:
  "pathExists shop_disk ''botech_images/Cat_A/a.jpg''
   \<and> pathExists shop_disk ''botech_images/Cat_A/b.jpg''
   \<and> pathExists shop_disk ''botech_images/Cat_A/c.png''
   \<and> download_phase 4 shop_world
         [(''https://www.botech.ma/images/produits/a.jpg'', ''botech_images/Cat_A/a.jpg''),
          (''https://www.botech.ma/images/produits/b.jpg'', ''botech_images/Cat_A/b.jpg''),
          (''https://www.botech.ma/images/produits/c.png'', ''botech_images/Cat_A/c.png'')]
         (download_sched shop_schedules) shop_disk = Inr (shop_disk, [])
   \<and> (\<exists>run. scrapeCategory shop_env shop_world shop_schedules shop_disk ''Cat A'' ''prod/cat'' = Inr run
        \<and> map snd (targets_of run) =
             [''botech_images/Cat_A/a.jpg'', ''botech_images/Cat_A/b.jpg'', ''botech_images/Cat_A/c.png'']
        \<and> download_log run = [] \<and> fetch_count (download_log run) = 0 \<and> files_after run = shop_disk)
   \<and> (\<exists>run. scrapeCategory_p1 shop_env shop_world shop_schedules shop_disk ''Cat A'' ''prod/cat'' = Inr run
        \<and> map snd (targets_of run) =
             [''botech_images/Cat_A/a.jpg'', ''botech_images/Cat_A/b.jpg'', ''botech_images/Cat_A/c.png'']
        \<and> download_log run = [] \<and> fetch_count (download_log run) = 0 \<and> files_after run = shop_disk)"
proof (intro conjI)
  show "pathExists shop_disk ''botech_images/Cat_A/a.jpg''"
    "pathExists shop_disk ''botech_images/Cat_A/b.jpg''"
    "pathExists shop_disk ''botech_images/Cat_A/c.png''"
    by (rule shop_disk_exists)+
next
  show "download_phase 4 shop_world
         [(''https://www.botech.ma/images/produits/a.jpg'', ''botech_images/Cat_A/a.jpg''),
          (''https://www.botech.ma/images/produits/b.jpg'', ''botech_images/Cat_A/b.jpg''),
          (''https://www.botech.ma/images/produits/c.png'', ''botech_images/Cat_A/c.png'')]
         (download_sched shop_schedules) shop_disk = Inr (shop_disk, [])"
    using rerun_fetches_nothing [of 4
        "[(''https://www.botech.ma/images/produits/a.jpg'', ''botech_images/Cat_A/a.jpg''),
          (''https://www.botech.ma/images/produits/b.jpg'', ''botech_images/Cat_A/b.jpg''),
          (''https://www.botech.ma/images/produits/c.png'', ''botech_images/Cat_A/c.png'')]"
        shop_disk shop_world "download_sched shop_schedules"]
    by (simp add: shop_disk_exists)
next
  from shop_run [of shop_schedules shop_disk] obtain run
    where r: "scrapeCategory shop_env shop_world shop_schedules shop_disk ''Cat A'' ''prod/cat'' = Inr run"
      and t: "targets_of run =
         [(''https://www.botech.ma/images/produits/a.jpg'', ''botech_images/Cat_A/a.jpg''),
          (''https://www.botech.ma/images/produits/b.jpg'', ''botech_images/Cat_A/b.jpg''),
          (''https://www.botech.ma/images/produits/c.png'', ''botech_images/Cat_A/c.png'')]"
    by blast
  have "\<forall>t \<in> set (targets_of run). pathExists shop_disk (snd t)"
    unfolding t by (simp add: shop_disk_exists)
  with rerun_fetches_nothing [of 1 "[]" shop_disk shop_world "[]" shop_env shop_schedules
      "''Cat A''" "''prod/cat''" run] r
  have "download_log run = [] \<and> fetch_count (download_log run) = 0 \<and> files_after run = shop_disk"
    by blast
  then show "\<exists>run. scrapeCategory shop_env shop_world shop_schedules shop_disk ''Cat A'' ''prod/cat'' = Inr run
        \<and> map snd (targets_of run) =
             [''botech_images/Cat_A/a.jpg'', ''botech_images/Cat_A/b.jpg'', ''botech_images/Cat_A/c.png'']
        \<and> download_log run = [] \<and> fetch_count (download_log run) = 0 \<and> files_after run = shop_disk"
    using r t by (intro exI [of _ run]) (simp add: fetch_count_def)
next
  from shop_run_p1 [of shop_schedules shop_disk] obtain run
    where r: "scrapeCategory_p1 shop_env shop_world shop_schedules shop_disk ''Cat A'' ''prod/cat'' = Inr run"
      and t: "targets_of run =
         [(''https://www.botech.ma/images/produits/a.jpg'', ''botech_images/Cat_A/a.jpg''),
          (''https://www.botech.ma/images/produits/b.jpg'', ''botech_images/Cat_A/b.jpg''),
          (''https://www.botech.ma/images/produits/c.png'', ''botech_images/Cat_A/c.png'')]"
    by blast
  have "\<forall>t \<in> set (targets_of run). pathExists shop_disk (snd t)"
    unfolding t by (simp add: shop_disk_exists)
  with rerun_fetches_nothing [of 1 "[]" shop_disk shop_world "[]" shop_env shop_schedules
      "''Cat A''" "''prod/cat''" run] r
  have "download_log run = [] \<and> fetch_count (download_log run) = 0 \<and> files_after run = shop_disk"
    by blast
  then show "\<exists>run. scrapeCategory_p1 shop_env shop_world shop_schedules shop_disk ''Cat A'' ''prod/cat'' = Inr run
        \<and> map snd (targets_of run) =
             [''botech_images/Cat_A/a.jpg'', ''botech_images/Cat_A/b.jpg'', ''botech_images/Cat_A/c.png'']
        \<and> download_log run = [] \<and> fetch_count (download_log run) = 0 \<and> files_after run = shop_disk"
    using r t by (intro exI [of _ run]) (simp add: fetch_count_def)
qed


subsection \<open>C6: a product page that cannot be fetched does not stop the others\<close>

text \<open>
  Claim C6. The fetch phase runs the task of every product link and completes, whatever
  the outcomes of the fetches. A product whose fetch fails at all \<open>MAX_RETRIES\<close> attempts
  contributes the empty body; in \<open>scrape-botech.js\<close> the extractor then runs on the empty
  body, where it finds nothing as soon as no selector matches in an empty document, and
  in \<open>part_001\<close> the product is skipped. In a category run of either copy the product
  pages are the bodies of all the links, in order, and the images extracted from the body
  of any product are in the final image set.
\<close>

theorem product_failure_is_local:
  "runBounded FETCH_CONCURRENCY (fetch_product W) links sched = Inr (map (fetch_product W) links)
   \<and> runBounded FETCH_CONCURRENCY (fetch_product_p1 W) links sched
        = Inr (map (fetch_product_p1 W) links)
   \<and> ((\<forall>k. 1 \<le> k \<and> k \<le> MAX_RETRIES \<longrightarrow> isl (page_get W u k)) \<longrightarrow>
        fetch_product W u = [] \<and> fetch_product_p1 W u = (u, []))
   \<and> ((\<forall>sel. select E [] sel = []) \<longrightarrow> extractProductImages E [] = Inr [])
   \<and> (scrapeCategory E W S fs0 name rel = Inr run \<longrightarrow>
        product_pages run = map (fetch_product W) (product_links run)
        \<and> (\<forall>v imgs. v \<in> set (product_links run)
               \<and> extractProductImages E (fetch_product W v) = Inr imgs
             \<longrightarrow> set imgs \<subseteq> set (all_images run)))
   \<and> (scrapeCategory_p1 E W S fs0 name rel = Inr run \<longrightarrow>
        product_pages run = map (fetch_product W) (product_links run)
        \<and> (\<forall>v imgs. v \<in> set (product_links run) \<and> fetch_product W v \<noteq> []
               \<and> getProductImages_p1 E (fetch_product W v) = Inr imgs
             \<longrightarrow> set imgs \<subseteq> set (all_images run)))"
proof (intro conjI impI allI)
  show "runBounded FETCH_CONCURRENCY (fetch_product W) links sched = Inr (map (fetch_product W) links)"
    "runBounded FETCH_CONCURRENCY (fetch_product_p1 W) links sched
        = Inr (map (fetch_product_p1 W) links)"
    by (rule fetch_phase)+
  show "fetch_product W u = []" "fetch_product_p1 W u = (u, [])"
    if "\<forall>k. 1 \<le> k \<and> k \<le> MAX_RETRIES \<longrightarrow> isl (page_get W u k)"
    by (rule fetch_product_failed [OF that])+
  show "extractProductImages E [] = Inr []" if "\<forall>sel. select E [] sel = []"
    by (rule extract_empty_body [OF that])
next
  assume r: "scrapeCategory E W S fs0 name rel = Inr run"
  from scrapeCategory_InrD [OF r] obtain thumbs
    where p: "product_pages run = map (fetch_product W) (product_links run)"
      and f: "final_images E thumbs (product_pages run) = Inr (all_images run)"
    by blast
  show "product_pages run = map (fetch_product W) (product_links run)" by (rule p)
  fix v imgs
  assume "v \<in> set (product_links run) \<and> extractProductImages E (fetch_product W v) = Inr imgs"
  then have "fetch_product W v \<in> set (product_pages run)"
    and "extractProductImages E (fetch_product W v) = Inr imgs"
    by (simp_all add: p)
  then show "set imgs \<subseteq> set (all_images run)"
    by (rule final_images_covers(2) [OF f])
next
  assume r: "scrapeCategory_p1 E W S fs0 name rel = Inr run"
  from scrapeCategory_p1_InrD [OF r] obtain thumbs
    where p: "product_pages run = map (fetch_product W) (product_links run)"
      and f: "final_images_p1 E thumbs (map (fetch_product_p1 W) (product_links run)) =
          Inr (all_images run)"
    by blast
  show "product_pages run = map (fetch_product W) (product_links run)" by (rule p)
  fix v imgs
  assume a: "v \<in> set (product_links run) \<and> fetch_product W v \<noteq> []
               \<and> getProductImages_p1 E (fetch_product W v) = Inr imgs"
  then have "fetch_product_p1 W v \<in> set (map (fetch_product_p1 W) (product_links run))" by simp
  moreover have "fetch_product_p1 W v = (fst (fetch_product_p1 W v), fetch_product W v)"
    by (simp add: snd_fetch_product_p1 [symmetric])
  ultimately have "(fst (fetch_product_p1 W v), fetch_product W v)
      \<in> set (map (fetch_product_p1 W) (product_links run))"
    by simp
  then have m: "(fst (fetch_product_p1 W v), fetch_product W v)
      \<in> set (map (fetch_product_p1 W) (product_links run))" .
  from a have n: "fetch_product W v \<noteq> []"
    and g: "getProductImages_p1 E (fetch_product W v) = Inr imgs"
    by simp_all
  show "set imgs \<subseteq> set (all_images run)"
    by (rule final_images_p1_covers [OF f m n g])
qed

text \<open>In the sample shop the second of three products never answers; the run completes,
  the second body is empty, and the image of the third product is in the final set.\<close>

theorem product_failure_is_local_witness:
  "isl (page_get shop_world (Some ''https://www.botech.ma/details/p2'') 1)
   \<and> isl (page_get shop_world (Some ''https://www.botech.ma/details/p2'') 2)
   \<and> isl (page_get shop_world (Some ''https://www.botech.ma/details/p2'') 3)
   \<and> fetch_product shop_world (Some ''https://www.botech.ma/details/p2'') = []
   \<and> extractProductImages shop_env [] = Inr []
   \<and> (\<exists>run. scrapeCategory shop_env shop_world shop_schedules Map.empty ''Cat A'' ''prod/cat'' = Inr run
        \<and> product_pages run = [''PRODUCT 1'', [], ''PRODUCT 3'']
        \<and> set [''https://www.botech.ma/images/produits/c.png''] \<subseteq> set (all_images run))
   \<and> (\<exists>run. scrapeCategory_p1 shop_env shop_world shop_schedules Map.empty ''Cat A'' ''prod/cat'' = Inr run
        \<and> product_pages run = [''PRODUCT 1'', [], ''PRODUCT 3'']
        \<and> set [''https://www.botech.ma/images/produits/c.png''] \<subseteq> set (all_images run))"
proof (intro conjI)
  show "isl (page_get shop_world (Some ''https://www.botech.ma/details/p2'') 1)"
    "isl (page_get shop_world (Some ''https://www.botech.ma/details/p2'') 2)"
    "isl (page_get shop_world (Some ''https://www.botech.ma/details/p2'') 3)"
    by (simp_all add: shop_world_def shop_page_def)
  note T = product_failure_is_local [of shop_world _ _ "Some ''https://www.botech.ma/details/p2''"
      shop_env shop_schedules Map.empty "''Cat A''" "''prod/cat''"]
  show "fetch_product shop_world (Some ''https://www.botech.ma/details/p2'') = []"
    using T [of "[]" "[]"] shop_p2_fails by blast
  have "\<forall>sel. select shop_env [] sel = []"
    by (simp add: shop_env_def shop_select_def)
  then show "extractProductImages shop_env [] = Inr []"
    using T [of "[]" "[]"] by blast
  from shop_run [of shop_schedules Map.empty] obtain run
    where r: "scrapeCategory shop_env shop_world shop_schedules Map.empty ''Cat A'' ''prod/cat'' = Inr run"
      and l: "product_links run =
         [Some ''https://www.botech.ma/details/p1'', Some ''https://www.botech.ma/details/p2'',
          Some ''https://www.botech.ma/details/p3'']"
      and p: "product_pages run = [''PRODUCT 1'', [], ''PRODUCT 3'']"
    by blast
  have "Some ''https://www.botech.ma/details/p3'' \<in> set (product_links run)
      \<and> extractProductImages shop_env (fetch_product shop_world (Some ''https://www.botech.ma/details/p3''))
          = Inr [''https://www.botech.ma/images/produits/c.png'']"
    unfolding l shop_p3 by (simp add: shop_product_images)
  with T [of "[]" "[]" run] r
  have "set [''https://www.botech.ma/images/produits/c.png''] \<subseteq> set (all_images run)"
    by blast
  then show "\<exists>run. scrapeCategory shop_env shop_world shop_schedules Map.empty ''Cat A'' ''prod/cat'' = Inr run
        \<and> product_pages run = [''PRODUCT 1'', [], ''PRODUCT 3'']
        \<and> set [''https://www.botech.ma/images/produits/c.png''] \<subseteq> set (all_images run)"
    using r p by blast
  from shop_run_p1 [of shop_schedules Map.empty] obtain run
    where r: "scrapeCategory_p1 shop_env shop_world shop_schedules Map.empty ''Cat A'' ''prod/cat'' = Inr run"
      and l: "product_links run =
         [Some ''https://www.botech.ma/details/p1'', Some ''https://www.botech.ma/details/p2'',
          Some ''https://www.botech.ma/details/p3'']"
      and p: "product_pages run = [''PRODUCT 1'', [], ''PRODUCT 3'']"
    by blast
  have "Some ''https://www.botech.ma/details/p3'' \<in> set (product_links run)
      \<and> fetch_product shop_world (Some ''https://www.botech.ma/details/p3'') \<noteq> []
      \<and> getProductImages_p1 shop_env (fetch_product shop_world (Some ''https://www.botech.ma/details/p3''))
          = Inr [''https://www.botech.ma/images/produits/c.png'']"
    unfolding l shop_p3 by (simp add: shop_product_images)
  with T [of "[]" "[]" run] r
  have "set [''https://www.botech.ma/images/produits/c.png''] \<subseteq> set (all_images run)"
    by blast
  then show "\<exists>run. scrapeCategory_p1 shop_env shop_world shop_schedules Map.empty ''Cat A'' ''prod/cat'' = Inr run
        \<and> product_pages run = [''PRODUCT 1'', [], ''PRODUCT 3'']
        \<and> set [''https://www.botech.ma/images/produits/c.png''] \<subseteq> set (all_images run)"
    using r p by blast
qed


subsection \<open>C7: the run driver isolates the failure of a category\<close>

text \<open>
  Claim C7. Once the output directory exists, the driver of either copy ends normally,
  whatever the categories do, and its result is fixed by these facts. On the empty table
  it leaves the disk as it was and logs nothing. On a table with one more category at
  its end it first does what it does on the table without it, then calls the
  orchestrator for the new category on the disk left so far: if the orchestrator throws,
  whatever the exception, the driver logs the exception with the name of the category
  and keeps the disk that the category left; if it returns, the driver keeps the disk
  that it returns and logs nothing. So every category is attempted, in the order of the
  table, also after a category that failed; the error log holds exactly the categories
  whose orchestrator threw, each with its exception; and in particular a category whose
  listing page cannot be fetched at any of the \<open>MAX_RETRIES\<close> attempts is in the log.
\<close>

theorem driver_isolates_categories:
  assumes "ensure_dir W OUTPUT_DIR = None"
  shows
    "(main E W S [] fs0 = Inr \<lparr>disk = fs0, attempted = [], error_lines = []\<rparr>
      \<and> (\<exists>d. main E W S cats fs0 = Inr d \<and> attempted d = map fst cats
          \<and> (\<forall>name e. (name, e) \<in> set (error_lines d) \<longleftrightarrow>
                (\<exists>pre rel post d1 f. cats = pre @ (name, rel) # post
                   \<and> main E W S pre fs0 = Inr d1
                   \<and> scrapeCategory E W (S name) (disk d1) name rel = Inl (e, f)))
          \<and> (\<forall>name rel url. (name, rel) \<in> set cats \<and> toAbs E (Some rel) = Inr url
                \<and> (\<forall>k. 1 \<le> k \<and> k \<le> MAX_RETRIES \<longrightarrow> isl (page_get W url k))
              \<longrightarrow> name \<in> fst ` set (error_lines d))
          \<and> (\<forall>name rel e f. scrapeCategory E W (S name) (disk d) name rel = Inl (e, f) \<longrightarrow>
                main E W S (cats @ [(name, rel)]) fs0 =
                  Inr (d\<lparr>disk := f, attempted := attempted d @ [name],
                         error_lines := error_lines d @ [(name, e)]\<rparr>))
          \<and> (\<forall>name rel r. scrapeCategory E W (S name) (disk d) name rel = Inr r \<longrightarrow>
                main E W S (cats @ [(name, rel)]) fs0 =
                  Inr (d\<lparr>disk := files_after r, attempted := attempted d @ [name]\<rparr>))))
     \<and> (main_p1 E W S [] fs0 = Inr \<lparr>disk = fs0, attempted = [], error_lines = []\<rparr>
      \<and> (\<exists>d. main_p1 E W S cats fs0 = Inr d \<and> attempted d = map fst cats
          \<and> (\<forall>name e. (name, e) \<in> set (error_lines d) \<longleftrightarrow>
                (\<exists>pre rel post d1 f. cats = pre @ (name, rel) # post
                   \<and> main_p1 E W S pre fs0 = Inr d1
                   \<and> scrapeCategory_p1 E W (S name) (disk d1) name rel = Inl (e, f)))
          \<and> (\<forall>name rel url. (name, rel) \<in> set cats \<and> toAbs_p1 E (Some rel) = Inr url
                \<and> (\<forall>k. 1 \<le> k \<and> k \<le> MAX_RETRIES \<longrightarrow> isl (page_get W url k))
              \<longrightarrow> name \<in> fst ` set (error_lines d))
          \<and> (\<forall>name rel e f. scrapeCategory_p1 E W (S name) (disk d) name rel = Inl (e, f) \<longrightarrow>
                main_p1 E W S (cats @ [(name, rel)]) fs0 =
                  Inr (d\<lparr>disk := f, attempted := attempted d @ [name],
                         error_lines := error_lines d @ [(name, e)]\<rparr>))
          \<and> (\<forall>name rel r. scrapeCategory_p1 E W (S name) (disk d) name rel = Inr r \<longrightarrow>
                main_p1 E W S (cats @ [(name, rel)]) fs0 =
                  Inr (d\<lparr>disk := files_after r, attempted := attempted d @ [name]\<rparr>))))"
proof (rule conjI)
  let ?s = "\<lambda>f name rel. scrapeCategory E W (S name) f name rel"
  have m: "main E W S xs fs0 = main_driver W ?s xs fs0" for xs
    by (simp add: main_def)
  from main_driver_total [OF assms, of ?s cats fs0]
  obtain d where d: "main_driver W ?s cats fs0 = Inr d" and a: "attempted d = map fst cats"
    by blast
  have e: "\<forall>name e. (name, e) \<in> set (error_lines d) \<longleftrightarrow>
      (\<exists>pre rel post d1 f. cats = pre @ (name, rel) # post
         \<and> main_driver W ?s pre fs0 = Inr d1
         \<and> scrapeCategory E W (S name) (disk d1) name rel = Inl (e, f))"
    using main_driver_errors_iff [OF d] by blast
  have l: "\<forall>name rel url. (name, rel) \<in> set cats \<and> toAbs E (Some rel) = Inr url
        \<and> (\<forall>k. 1 \<le> k \<and> k \<le> MAX_RETRIES \<longrightarrow> isl (page_get W url k))
      \<longrightarrow> name \<in> fst ` set (error_lines d)"
  proof (intro allI impI)
    fix name rel url
    assume h: "(name, rel) \<in> set cats \<and> toAbs E (Some rel) = Inr url
        \<and> (\<forall>k. 1 \<le> k \<and> k \<le> MAX_RETRIES \<longrightarrow> isl (page_get W url k))"
    then have "\<forall>f. isl (?s f name rel)" by (simp add: listing_abort)
    with h show "name \<in> fst ` set (error_lines d)"
      by (intro main_driver_logs_failure [OF d, of name rel]) simp_all
  qed
  show "main E W S [] fs0 = Inr \<lparr>disk = fs0, attempted = [], error_lines = []\<rparr>
      \<and> (\<exists>d. main E W S cats fs0 = Inr d \<and> attempted d = map fst cats
          \<and> (\<forall>name e. (name, e) \<in> set (error_lines d) \<longleftrightarrow>
                (\<exists>pre rel post d1 f. cats = pre @ (name, rel) # post
                   \<and> main E W S pre fs0 = Inr d1
                   \<and> scrapeCategory E W (S name) (disk d1) name rel = Inl (e, f)))
          \<and> (\<forall>name rel url. (name, rel) \<in> set cats \<and> toAbs E (Some rel) = Inr url
                \<and> (\<forall>k. 1 \<le> k \<and> k \<le> MAX_RETRIES \<longrightarrow> isl (page_get W url k))
              \<longrightarrow> name \<in> fst ` set (error_lines d))
          \<and> (\<forall>name rel e f. scrapeCategory E W (S name) (disk d) name rel = Inl (e, f) \<longrightarrow>
                main E W S (cats @ [(name, rel)]) fs0 =
                  Inr (d\<lparr>disk := f, attempted := attempted d @ [name],
                         error_lines := error_lines d @ [(name, e)]\<rparr>))
          \<and> (\<forall>name rel r. scrapeCategory E W (S name) (disk d) name rel = Inr r \<longrightarrow>
                main E W S (cats @ [(name, rel)]) fs0 =
                  Inr (d\<lparr>disk := files_after r, attempted := attempted d @ [name]\<rparr>)))"
    unfolding m
    using main_driver_empty [OF assms, of ?s fs0] d a e l
      main_driver_step [OF d]
    by (intro conjI exI [of _ d]) simp_all
next
  let ?s = "\<lambda>f name rel. scrapeCategory_p1 E W (S name) f name rel"
  have m: "main_p1 E W S xs fs0 = main_driver W ?s xs fs0" for xs
    by (simp add: main_p1_def)
  from main_driver_total [OF assms, of ?s cats fs0]
  obtain d where d: "main_driver W ?s cats fs0 = Inr d" and a: "attempted d = map fst cats"
    by blast
  have e: "\<forall>name e. (name, e) \<in> set (error_lines d) \<longleftrightarrow>
      (\<exists>pre rel post d1 f. cats = pre @ (name, rel) # post
         \<and> main_driver W ?s pre fs0 = Inr d1
         \<and> scrapeCategory_p1 E W (S name) (disk d1) name rel = Inl (e, f))"
    using main_driver_errors_iff [OF d] by blast
  have l: "\<forall>name rel url. (name, rel) \<in> set cats \<and> toAbs_p1 E (Some rel) = Inr url
        \<and> (\<forall>k. 1 \<le> k \<and> k \<le> MAX_RETRIES \<longrightarrow> isl (page_get W url k))
      \<longrightarrow> name \<in> fst ` set (error_lines d)"
  proof (intro allI impI)
    fix name rel url
    assume h: "(name, rel) \<in> set cats \<and> toAbs_p1 E (Some rel) = Inr url
        \<and> (\<forall>k. 1 \<le> k \<and> k \<le> MAX_RETRIES \<longrightarrow> isl (page_get W url k))"
    then have "\<forall>f. isl (?s f name rel)" by (simp add: listing_abort_p1)
    with h show "name \<in> fst ` set (error_lines d)"
      by (intro main_driver_logs_failure [OF d, of name rel]) simp_all
  qed
  show "main_p1 E W S [] fs0 = Inr \<lparr>disk = fs0, attempted = [], error_lines = []\<rparr>
      \<and> (\<exists>d. main_p1 E W S cats fs0 = Inr d \<and> attempted d = map fst cats
          \<and> (\<forall>name e. (name, e) \<in> set (error_lines d) \<longleftrightarrow>
                (\<exists>pre rel post d1 f. cats = pre @ (name, rel) # post
                   \<and> main_p1 E W S pre fs0 = Inr d1
                   \<and> scrapeCategory_p1 E W (S name) (disk d1) name rel = Inl (e, f)))
          \<and> (\<forall>name rel url. (name, rel) \<in> set cats \<and> toAbs_p1 E (Some rel) = Inr url
                \<and> (\<forall>k. 1 \<le> k \<and> k \<le> MAX_RETRIES \<longrightarrow> isl (page_get W url k))
              \<longrightarrow> name \<in> fst ` set (error_lines d))
          \<and> (\<forall>name rel e f. scrapeCategory_p1 E W (S name) (disk d) name rel = Inl (e, f) \<longrightarrow>
                main_p1 E W S (cats @ [(name, rel)]) fs0 =
                  Inr (d\<lparr>disk := f, attempted := attempted d @ [name],
                         error_lines := error_lines d @ [(name, e)]\<rparr>))
          \<and> (\<forall>name rel r. scrapeCategory_p1 E W (S name) (disk d) name rel = Inr r \<longrightarrow>
                main_p1 E W S (cats @ [(name, rel)]) fs0 =
                  Inr (d\<lparr>disk := files_after r, attempted := attempted d @ [name]\<rparr>)))"
    unfolding m
    using main_driver_empty [OF assms, of ?s fs0] d a e l
      main_driver_step [OF d]
    by (intro conjI exI [of _ d]) simp_all
qed


text \<open>Two categories, the first without a listing page: the first is logged with its
  exception, the second is crawled after it, and its three images are on the disk that
  the driver returns.\<close>

theorem driver_isolates_categories_witness:
  "ensure_dir shop_world OUTPUT_DIR = None
   \<and> scrapeCategory shop_env shop_world shop_schedules Map.empty ''Broken'' ''prod/none''
        = Inl (TransportError ''503'', Map.empty)
   \<and> (\<exists>r. scrapeCategory shop_env shop_world shop_schedules Map.empty ''Cat A'' ''prod/cat'' = Inr r
        \<and> main shop_env shop_world (\<lambda>name. shop_schedules) shop_categories Map.empty =
            Inr \<lparr>disk = files_after r, attempted = [''Broken'', ''Cat A''],
                 error_lines = [(''Broken'', TransportError ''503'')]\<rparr>
        \<and> pathExists (files_after r) ''botech_images/Cat_A/a.jpg''
        \<and> pathExists (files_after r) ''botech_images/Cat_A/b.jpg''
        \<and> pathExists (files_after r) ''botech_images/Cat_A/c.png''
        \<and> fetch_count (download_log r) = 3)
   \<and> scrapeCategory_p1 shop_env shop_world shop_schedules Map.empty ''Broken'' ''prod/none''
        = Inl (TransportError ''503'', Map.empty)
   \<and> (\<exists>r. scrapeCategory_p1 shop_env shop_world shop_schedules Map.empty ''Cat A'' ''prod/cat'' = Inr r
        \<and> main_p1 shop_env shop_world (\<lambda>name. shop_schedules) shop_categories Map.empty =
            Inr \<lparr>disk = files_after r, attempted = [''Broken'', ''Cat A''],
                 error_lines = [(''Broken'', TransportError ''503'')]\<rparr>
        \<and> pathExists (files_after r) ''botech_images/Cat_A/a.jpg''
        \<and> pathExists (files_after r) ''botech_images/Cat_A/b.jpg''
        \<and> pathExists (files_after r) ''botech_images/Cat_A/c.png''
        \<and> fetch_count (download_log r) = 3)"
proof -
  let ?S = "\<lambda>name::string. shop_schedules"
  let ?d0 = "\<lparr>disk = Map.empty, attempted = [], error_lines = []\<rparr> :: driver"
  let ?d1 = "\<lparr>disk = Map.empty, attempted = [''Broken''],
               error_lines = [(''Broken'', TransportError ''503'')]\<rparr> :: driver"
  have e: "ensure_dir shop_world OUTPUT_DIR = None" by (simp add: shop_world_def)
  note T0 = driver_isolates_categories [OF e, of shop_env ?S Map.empty "[]"]
  note T1 = driver_isolates_categories [OF e, of shop_env ?S Map.empty "[(''Broken'', ''prod/none'')]"]
  have c: "shop_categories = [(''Broken'', ''prod/none'')] @ [(''Cat A'', ''prod/cat'')]"
    by (simp add: shop_categories_def)
  \<comment> \<open>the copy of scrape-botech.js\<close>
  from T0 have m0: "main shop_env shop_world ?S [] Map.empty = Inr ?d0" by blast
  from T0 m0 shop_broken(1) [of shop_schedules Map.empty]
  have m1: "main shop_env shop_world ?S [(''Broken'', ''prod/none'')] Map.empty = Inr ?d1"
    by auto
  from shop_run [of shop_schedules Map.empty] obtain r
    where r: "scrapeCategory shop_env shop_world shop_schedules Map.empty ''Cat A'' ''prod/cat'' = Inr r"
      and t: "targets_of r =
         [(''https://www.botech.ma/images/produits/a.jpg'', ''botech_images/Cat_A/a.jpg''),
          (''https://www.botech.ma/images/produits/b.jpg'', ''botech_images/Cat_A/b.jpg''),
          (''https://www.botech.ma/images/produits/c.png'', ''botech_images/Cat_A/c.png'')]"
    by blast
  from T1 m1 r
  have m2: "main shop_env shop_world ?S shop_categories Map.empty =
      Inr \<lparr>disk = files_after r, attempted = [''Broken'', ''Cat A''],
           error_lines = [(''Broken'', TransportError ''503'')]\<rparr>"
    unfolding c by auto
  from scrapeCategory_InrD [OF r]
  have "download_phase DOWNLOAD_CONCURRENCY shop_world (targets_of r)
             (download_sched shop_schedules) Map.empty = Inr (files_after r, download_log r)"
    by blast
  from shop_run_files [OF this t] r m2
  have one: "\<exists>r. scrapeCategory shop_env shop_world shop_schedules Map.empty ''Cat A'' ''prod/cat'' = Inr r
        \<and> main shop_env shop_world ?S shop_categories Map.empty =
            Inr \<lparr>disk = files_after r, attempted = [''Broken'', ''Cat A''],
                 error_lines = [(''Broken'', TransportError ''503'')]\<rparr>
        \<and> pathExists (files_after r) ''botech_images/Cat_A/a.jpg''
        \<and> pathExists (files_after r) ''botech_images/Cat_A/b.jpg''
        \<and> pathExists (files_after r) ''botech_images/Cat_A/c.png''
        \<and> fetch_count (download_log r) = 3"
    by blast
  \<comment> \<open>the copy of part_001\<close>
  from T0 have n0: "main_p1 shop_env shop_world ?S [] Map.empty = Inr ?d0" by blast
  from T0 n0 shop_broken(2) [of shop_schedules Map.empty]
  have n1: "main_p1 shop_env shop_world ?S [(''Broken'', ''prod/none'')] Map.empty = Inr ?d1"
    by auto
  from shop_run_p1 [of shop_schedules Map.empty] obtain r'
    where r': "scrapeCategory_p1 shop_env shop_world shop_schedules Map.empty ''Cat A'' ''prod/cat'' = Inr r'"
      and t': "targets_of r' =
         [(''https://www.botech.ma/images/produits/a.jpg'', ''botech_images/Cat_A/a.jpg''),
          (''https://www.botech.ma/images/produits/b.jpg'', ''botech_images/Cat_A/b.jpg''),
          (''https://www.botech.ma/images/produits/c.png'', ''botech_images/Cat_A/c.png'')]"
    by blast
  from T1 n1 r'
  have n2: "main_p1 shop_env shop_world ?S shop_categories Map.empty =
      Inr \<lparr>disk = files_after r', attempted = [''Broken'', ''Cat A''],
           error_lines = [(''Broken'', TransportError ''503'')]\<rparr>"
    unfolding c by auto
  from scrapeCategory_p1_InrD [OF r']
  have "download_phase DOWNLOAD_CONCURRENCY shop_world (targets_of r')
             (download_sched shop_schedules) Map.empty = Inr (files_after r', download_log r')"
    by blast
  from shop_run_files [OF this t'] r' n2
  have two: "\<exists>r. scrapeCategory_p1 shop_env shop_world shop_schedules Map.empty ''Cat A'' ''prod/cat'' = Inr r
        \<and> main_p1 shop_env shop_world ?S shop_categories Map.empty =
            Inr \<lparr>disk = files_after r, attempted = [''Broken'', ''Cat A''],
                 error_lines = [(''Broken'', TransportError ''503'')]\<rparr>
        \<and> pathExists (files_after r) ''botech_images/Cat_A/a.jpg''
        \<and> pathExists (files_after r) ''botech_images/Cat_A/b.jpg''
        \<and> pathExists (files_after r) ''botech_images/Cat_A/c.png''
        \<and> fetch_count (download_log r) = 3"
    by blast
  show ?thesis
    using e shop_broken [of shop_schedules Map.empty] one two by blast
qed

subsection \<open>C2: the destinations of distinct source URLs\<close>






end
